theory Spec2Isabelle
  imports Complex_Main
begin

section \<open>The traceroute engine of mtr-gui (src/network/mtr.py)\<close>

text \<open>
  A shallow embedding of the class \<^verbatim>\<open>MTRTracer\<close>: its two strategies
  \<^verbatim>\<open>_tracert_trace\<close> and \<^verbatim>\<open>_scapy_trace\<close> and the dispatcher
  \<^verbatim>\<open>trace\<close>.

  Scope of the model.
  \<^item> A Python \<^verbatim>\<open>str\<close> is a \<open>string\<close>; a \<open>char\<close> stands for the code point of the
    same number, so the model covers text over U+0000 .. U+00FF. The character classes
    below are Python's on that range.
  \<^item> Python integers are \<open>int\<close>. A latency is the exact quotient, a \<open>rat\<close>: the
    rounding of \<^verbatim>\<open>sum(rtts) / len(rtts)\<close> to a double and the range of a double are
    not modelled, nor is the interpreter's optional limit on the length of a decimal
    literal given to \<^verbatim>\<open>int()\<close>.
  \<^item> The world outside the program (the platform name, the subprocess, scapy's
    interface list, scapy's send/receive, the clock) is a record \<open>env\<close> of functions;
    each of them may raise, which is the value \<open>Inl e\<close>.
  \<^item> The process-wide scapy setting \<^verbatim>\<open>conf.iface\<close> and the sequence of calls to
    external primitives are the record \<open>world\<close>, passed through every operation.
\<close>

subsection \<open>Python's string operations on U+0000 .. U+00FF\<close>

text \<open>\<^verbatim>\<open>str.isspace\<close> of one character; also what \<^verbatim>\<open>\s\<close> matches in a \<^verbatim>\<open>str\<close> pattern.\<close>

definition is_space :: "char \<Rightarrow> bool" where
  "is_space c = (c \<in> set [CHR 0x09, CHR 0x0A, CHR 0x0B, CHR 0x0C, CHR 0x0D,
     CHR 0x1C, CHR 0x1D, CHR 0x1E, CHR 0x1F, CHR 0x20, CHR 0x85, CHR 0xA0])"

text \<open>The line boundaries of \<^verbatim>\<open>str.splitlines\<close>.\<close>

definition is_linebreak :: "char \<Rightarrow> bool" where
  "is_linebreak c = (c \<in> set [CHR 0x0A, CHR 0x0B, CHR 0x0C, CHR 0x0D,
     CHR 0x1C, CHR 0x1D, CHR 0x1E, CHR 0x85])"

text \<open>The decimal digits: what \<^verbatim>\<open>\d\<close> matches and what \<^verbatim>\<open>int()\<close> accepts.\<close>

definition is_decimal :: "char \<Rightarrow> bool" where
  "is_decimal c = (c \<in> set ''0123456789'')"

text \<open>
  \<^verbatim>\<open>str.isdigit\<close> of one character: the decimal digits and the superscripts two, three
  and one (U+00B2, U+00B3, U+00B9), which \<^verbatim>\<open>int()\<close> rejects.
\<close>

definition is_digit :: "char \<Rightarrow> bool" where
  "is_digit c = (is_decimal c \<or> c \<in> set [CHR 0xB2, CHR 0xB3, CHR 0xB9])"

definition upper_chars :: string where
  "upper_chars = ''ABCDEFGHIJKLMNOPQRSTUVWXYZ'' @
     [CHR 0xC0, CHR 0xC1, CHR 0xC2, CHR 0xC3, CHR 0xC4, CHR 0xC5, CHR 0xC6, CHR 0xC7,
      CHR 0xC8, CHR 0xC9, CHR 0xCA, CHR 0xCB, CHR 0xCC, CHR 0xCD, CHR 0xCE, CHR 0xCF,
      CHR 0xD0, CHR 0xD1, CHR 0xD2, CHR 0xD3, CHR 0xD4, CHR 0xD5, CHR 0xD6,
      CHR 0xD8, CHR 0xD9, CHR 0xDA, CHR 0xDB, CHR 0xDC, CHR 0xDD, CHR 0xDE]"

definition lower_chars :: string where
  "lower_chars = ''abcdefghijklmnopqrstuvwxyz'' @
     [CHR 0xE0, CHR 0xE1, CHR 0xE2, CHR 0xE3, CHR 0xE4, CHR 0xE5, CHR 0xE6, CHR 0xE7,
      CHR 0xE8, CHR 0xE9, CHR 0xEA, CHR 0xEB, CHR 0xEC, CHR 0xED, CHR 0xEE, CHR 0xEF,
      CHR 0xF0, CHR 0xF1, CHR 0xF2, CHR 0xF3, CHR 0xF4, CHR 0xF5, CHR 0xF6,
      CHR 0xF8, CHR 0xF9, CHR 0xFA, CHR 0xFB, CHR 0xFC, CHR 0xFD, CHR 0xFE]"

definition lower_char :: "char \<Rightarrow> char" where
  "lower_char c = (case map_of (zip upper_chars lower_chars) c of Some l \<Rightarrow> l | None \<Rightarrow> c)"

text \<open>\<^verbatim>\<open>str.lower\<close>.\<close>

definition lower :: "string \<Rightarrow> string" where
  "lower s = map lower_char s"

text \<open>\<^verbatim>\<open>str.strip()\<close> with no argument.\<close>

definition strip :: "string \<Rightarrow> string" where
  "strip s = rev (dropWhile is_space (rev (dropWhile is_space s)))"

text \<open>
  \<^verbatim>\<open>str.split()\<close> with no argument: the maximal runs of characters that are not
  whitespace. \<open>cur\<close> is the run being read, reversed.
\<close>

fun split_from :: "string \<Rightarrow> string \<Rightarrow> string list" where
  "split_from cur [] = (if cur = [] then [] else [rev cur])"
| "split_from cur (c # cs) =
     (if is_space c then (if cur = [] then split_from [] cs else rev cur # split_from [] cs)
      else split_from (c # cur) cs)"

definition py_split :: "string \<Rightarrow> string list" where
  "py_split s = split_from [] s"

text \<open>
  \<^verbatim>\<open>str.splitlines()\<close>: a carriage return followed by a line feed is one boundary, and
  no empty line follows a final boundary.
\<close>

fun splitlines_from :: "string \<Rightarrow> string \<Rightarrow> string list" where
  "splitlines_from cur [] = (if cur = [] then [] else [rev cur])"
| "splitlines_from cur [c] = (if is_linebreak c then [rev cur] else [rev (c # cur)])"
| "splitlines_from cur (c # d # cs) =
     (if c = CHR 0x0D \<and> d = CHR 0x0A then rev cur # splitlines_from [] cs
      else if is_linebreak c then rev cur # splitlines_from [] (d # cs)
      else splitlines_from (c # cur) (d # cs))"

definition splitlines :: "string \<Rightarrow> string list" where
  "splitlines s = splitlines_from [] s"

definition startswith :: "string \<Rightarrow> string \<Rightarrow> bool" where
  "startswith s p = (take (length p) s = p)"

text \<open>\<^verbatim>\<open>str.isdigit()\<close>.\<close>

definition isdigit :: "string \<Rightarrow> bool" where
  "isdigit s = (s \<noteq> [] \<and> list_all is_digit s)"

subsection \<open>Exceptions and \<^verbatim>\<open>int()\<close>\<close>

text \<open>
  The exception classes the model tells apart. \<open>ValueError\<close> is what \<^verbatim>\<open>int()\<close> raises;
  the others are what the external primitives raise (a subprocess that runs too long, a
  missing program, missing privileges, any other operating system error).
\<close>

datatype exn = ValueError | TimeoutExpired | FileNotFoundError | PermissionError | OSError

definition digit_value :: "char \<Rightarrow> int" where
  "digit_value c = int (length (takeWhile (\<lambda>d. d \<noteq> c) ''0123456789''))"

definition decimal_value :: "string \<Rightarrow> int" where
  "decimal_value s = foldl (\<lambda>a c. 10 * a + digit_value c) 0 s"

text \<open>
  \<^verbatim>\<open>int(s)\<close> for the arguments the program gives it: strings of characters that pass
  \<^verbatim>\<open>isdigit\<close> or match \<^verbatim>\<open>\d\<close> (no sign, no underscore, no blank). A character that is
  not a decimal digit raises.
\<close>

definition py_int :: "string \<Rightarrow> exn + int" where
  "py_int s = (if s \<noteq> [] \<and> list_all is_decimal s then Inr (decimal_value s)
               else Inl ValueError)"

text \<open>\<^verbatim>\<open>[int(m) for m in ms]\<close>: the first conversion that raises ends the comprehension.\<close>

fun int_all :: "string list \<Rightarrow> exn + int list" where
  "int_all [] = Inr []"
| "int_all (m # ms) =
     (case py_int m of
        Inl e \<Rightarrow> Inl e
      | Inr v \<Rightarrow> (case int_all ms of Inl e \<Rightarrow> Inl e | Inr vs \<Rightarrow> Inr (v # vs)))"

subsection \<open>The two regular expressions\<close>

text \<open>
  Both patterns of the program are sequences of character classes, each taken once,
  optionally (\<^verbatim>\<open>?\<close>), any number of times (\<^verbatim>\<open>*\<close>) or at least once (\<^verbatim>\<open>+\<close>). The matcher
  is the backtracking one of \<^verbatim>\<open>re\<close>: every quantifier is greedy, so an item tries the
  longest run first and gives characters back one at a time until the rest of the
  pattern matches. \<open>re_match\<close> returns the text each item consumed and the rest of the
  input.
\<close>

datatype item = One "char \<Rightarrow> bool" | Opt "char \<Rightarrow> bool" | Star "char \<Rightarrow> bool"
  | Plus "char \<Rightarrow> bool"

text \<open>The lengths an item may consume at the head of \<open>s\<close>, in the order they are tried.\<close>

fun candidates :: "item \<Rightarrow> string \<Rightarrow> nat list" where
  "candidates (One p) s = (if s \<noteq> [] \<and> p (hd s) then [1] else [])"
| "candidates (Opt p) s = (if s \<noteq> [] \<and> p (hd s) then [1, 0] else [0])"
| "candidates (Star p) s = rev [0..<Suc (length (takeWhile p s))]"
| "candidates (Plus p) s = rev [1..<Suc (length (takeWhile p s))]"

fun first_some :: "('a \<Rightarrow> 'b option) \<Rightarrow> 'a list \<Rightarrow> 'b option" where
  "first_some f [] = None"
| "first_some f (x # xs) = (case f x of Some y \<Rightarrow> Some y | None \<Rightarrow> first_some f xs)"

primrec re_match :: "item list \<Rightarrow> string \<Rightarrow> (string list \<times> string) option" where
  "re_match [] s = Some ([], s)"
| "re_match (i # is) s =
     first_some (\<lambda>k. case re_match is (drop k s) of
                        None \<Rightarrow> None
                      | Some (gs, r) \<Rightarrow> Some (take k s # gs, r))
       (candidates i s)"

text \<open>\<^verbatim>\<open>pattern.search\<close>: the match at the leftmost position that has one.\<close>

fun re_search :: "item list \<Rightarrow> string \<Rightarrow> (string list \<times> string) option" where
  "re_search re [] = re_match re []"
| "re_search re (c # cs) =
     (case re_match re (c # cs) of Some m \<Rightarrow> Some m | None \<Rightarrow> re_search re cs)"

text \<open>
  \<^verbatim>\<open>pattern.findall\<close>: the matches from left to right, none overlapping another; the scan
  goes on behind a match, and one character further where there is none. (A match of the
  program's patterns is never empty; the guard on the length only makes the scan total
  for every pattern.)
\<close>

function re_findall :: "item list \<Rightarrow> string \<Rightarrow> string list list" where
  "re_findall re [] = (case re_match re [] of Some (gs, r) \<Rightarrow> [gs] | None \<Rightarrow> [])"
| "re_findall re (c # cs) =
     (case re_match re (c # cs) of
        None \<Rightarrow> re_findall re cs
      | Some (gs, r) \<Rightarrow> gs # re_findall re (if length r \<le> length cs then r else cs))"
  by pat_completeness auto
termination
  by (relation "measure (\<lambda>(re, s). length s)") auto

text \<open>\<^verbatim>\<open>ip_re = re.compile(r"(\d+\.\d+\.\d+\.\d+)")\<close>; its group 1 is the whole match.\<close>

definition ip_re :: "item list" where
  "ip_re = [Plus is_decimal, One (\<lambda>c. c = CHR ''.''), Plus is_decimal, One (\<lambda>c. c = CHR ''.''),
            Plus is_decimal, One (\<lambda>c. c = CHR ''.''), Plus is_decimal]"

text \<open>\<^verbatim>\<open>rtt_re = re.compile(r"<?(\d+)\s*ms")\<close>; its group 1 is the second item.\<close>

definition rtt_re :: "item list" where
  "rtt_re = [Opt (\<lambda>c. c = CHR ''<''), Plus is_decimal, Star is_space,
             One (\<lambda>c. c = CHR ''m''), One (\<lambda>c. c = CHR ''s'')]"

text \<open>\<^verbatim>\<open>ip_match.group(1) if ip_match else "*"\<close>.\<close>

definition ip_of_line :: "string \<Rightarrow> string" where
  "ip_of_line line = (case re_search ip_re line of Some (gs, r) \<Rightarrow> concat gs | None \<Rightarrow> ''*'')"

text \<open>\<^verbatim>\<open>rtt_re.findall(line)\<close>: with one group in the pattern, the list of its texts.\<close>

definition rtt_findall :: "string \<Rightarrow> string list" where
  "rtt_findall line = map (\<lambda>gs. gs ! 1) (re_findall rtt_re line)"

subsection \<open>Hop records, configuration, environment\<close>

text \<open>The dictionary \<^verbatim>\<open>{"hop": ..., "ip": ..., "latency": ...}\<close>.\<close>

record hop_record =
  hop :: int
  ip :: string
  latency :: rat

text \<open>The fields \<^verbatim>\<open>__init__\<close> stores; no method assigns them again. The
  field \<^verbatim>\<open>method\<close> is \<open>method_name\<close> here.\<close>

record config =
  target_host :: string
  max_hops :: int
  method_name :: string

text \<open>What \<^verbatim>\<open>subprocess.run\<close> returns when it does not raise.\<close>

record completed_process =
  returncode :: int
  stdout :: string

text \<open>
  A received frame: the source address of its IP layer if it has one
  (\<^verbatim>\<open>reply.haslayer(IP)\<close>, \<^verbatim>\<open>reply[IP].src\<close>), and the source address of the frame itself
  (\<^verbatim>\<open>reply.src\<close>).
\<close>

datatype reply = Reply (ip_src: "string option") (src: string)

text \<open>
  The external primitives. \<open>subprocess_run argv timeout\<close> is \<^verbatim>\<open>subprocess.run\<close> with
  captured text output; \<open>srp iface dst ttl timeout\<close> builds the probe for \<open>dst\<close> with
  the given TTL, sends it on the interface \<^verbatim>\<open>conf.iface\<close> and returns the received frames
  of the answered list; \<open>elapsed ttl\<close> is the difference of the two clock readings around that
  call, in seconds.
\<close>

record env =
  platform :: string
  subprocess_run :: "string list \<Rightarrow> int \<Rightarrow> exn + completed_process"
  get_if_list :: "exn + string list"
  srp :: "string \<Rightarrow> string \<Rightarrow> int \<Rightarrow> int \<Rightarrow> exn + reply list"
  elapsed :: "int \<Rightarrow> rat"

text \<open>The calls to external primitives, in the order they are made.\<close>

datatype call =
    Subprocess_run "string list" int
  | Print_tracert_failed exn
  | Get_if_list
  | Srp string string int int

text \<open>The state shared by all tracers of the process.\<close>

record world =
  conf_iface :: string
  calls :: "call list"

definition log_call :: "call \<Rightarrow> world \<Rightarrow> world" where
  "log_call c w = w\<lparr>calls := calls w @ [c]\<rparr>"

subsection \<open>\<^verbatim>\<open>_tracert_trace\<close>\<close>

text \<open>
  The body of the loop over the output lines, up to the \<^verbatim>\<open>append\<close>: \<open>Inr None\<close> is a
  \<^verbatim>\<open>continue\<close>, \<open>Inr (Some h)\<close> the record to append, \<open>Inl e\<close> an exception.
\<close>

definition tracert_line :: "string \<Rightarrow> exn + hop_record option" where
  "tracert_line raw =
     (let line = strip raw in
      if line = [] then Inr None
      else if startswith line ''Tracing route'' \<or> startswith (lower line) ''over a maximum''
      then Inr None
      else
        (let parts = py_split line in
         if parts = [] then Inr None
         else if \<not> isdigit (hd parts) then Inr None
         else
           (case py_int (hd parts) of
              Inl e \<Rightarrow> Inl e
            | Inr hop_num \<Rightarrow>
                (let ip_addr = ip_of_line line in
                 case int_all (rtt_findall line) of
                   Inl e \<Rightarrow> Inl e
                 | Inr rtts \<Rightarrow>
                     (let latency =
                        (if rtts \<noteq> [] then of_int (sum_list rtts) / of_nat (length rtts)
                         else - 1)
                      in Inr (Some \<lparr>hop = hop_num, ip = ip_addr, latency = latency\<rparr>))))))"

text \<open>The loop: \<open>hops\<close> is the list built so far; the \<^verbatim>\<open>break\<close> returns it at once.\<close>

fun tracert_loop :: "string \<Rightarrow> string list \<Rightarrow> hop_record list \<Rightarrow> exn + hop_record list" where
  "tracert_loop target [] hops = Inr hops"
| "tracert_loop target (raw # out) hops =
     (case tracert_line raw of
        Inl e \<Rightarrow> Inl e
      | Inr None \<Rightarrow> tracert_loop target out hops
      | Inr (Some h) \<Rightarrow>
          (if ip h = target then Inr (hops @ [h])
           else tracert_loop target out (hops @ [h])))"

definition tracert_argv :: "config \<Rightarrow> string list" where
  "tracert_argv cfg = [''tracert'', ''-d'', ''-w'', ''200'', target_host cfg]"

definition tracert_trace :: "config \<Rightarrow> env \<Rightarrow> world \<Rightarrow> (exn + hop_record list) \<times> world" where
  "tracert_trace cfg env w =
     (let w1 = log_call (Subprocess_run (tracert_argv cfg) 60) w in
      case subprocess_run env (tracert_argv cfg) 60 of
        Inl e \<Rightarrow> (Inr [], log_call (Print_tracert_failed e) w1)
      | Inr proc \<Rightarrow> (tracert_loop (target_host cfg) (splitlines (stdout proc)) [], w1))"

subsection \<open>\<^verbatim>\<open>_scapy_trace\<close>\<close>

text \<open>\<^verbatim>\<open>reply[IP].src if reply.haslayer(IP) else reply.src\<close>.\<close>

definition reply_addr :: "reply \<Rightarrow> string" where
  "reply_addr r = (case ip_src r of Some a \<Rightarrow> a | None \<Rightarrow> src r)"

text \<open>The loop over \<^verbatim>\<open>range(1, self.max_hops + 1)\<close>, given as the list of its values.\<close>

fun scapy_loop ::
  "config \<Rightarrow> env \<Rightarrow> int list \<Rightarrow> hop_record list \<Rightarrow> world \<Rightarrow> (exn + hop_record list) \<times> world"
where
  "scapy_loop cfg env [] hops w = (Inr hops, w)"
| "scapy_loop cfg env (ttl # ttls) hops w =
     (let w1 = log_call (Srp (conf_iface w) (target_host cfg) ttl 2) w in
      case srp env (conf_iface w) (target_host cfg) ttl 2 of
        Inl e \<Rightarrow> (Inl e, w1)
      | Inr ans \<Rightarrow>
          (let latency = elapsed env ttl * 1000 in
           case ans of
             [] \<Rightarrow> scapy_loop cfg env ttls (hops @ [\<lparr>hop = ttl, ip = ''*'', latency = - 1\<rparr>]) w1
           | reply # _ \<Rightarrow>
               (let ip_addr = reply_addr reply;
                    hops1 = hops @ [\<lparr>hop = ttl, ip = ip_addr, latency = latency\<rparr>]
                in if ip_addr = target_host cfg then (Inr hops1, w1)
                   else scapy_loop cfg env ttls hops1 w1)))"

definition scapy_trace :: "config \<Rightarrow> env \<Rightarrow> world \<Rightarrow> (exn + hop_record list) \<times> world" where
  "scapy_trace cfg env w =
     (let w1 = log_call Get_if_list w in
      case get_if_list env of
        Inl e \<Rightarrow> (Inl e, w1)
      | Inr interfaces \<Rightarrow>
          (let w2 = (if interfaces \<noteq> [] then w1\<lparr>conf_iface := hd interfaces\<rparr> else w1)
           in scapy_loop cfg env [1..max_hops cfg] [] w2))"

subsection \<open>\<^verbatim>\<open>trace\<close>\<close>

definition trace :: "config \<Rightarrow> env \<Rightarrow> world \<Rightarrow> (exn + hop_record list) \<times> world" where
  "trace cfg env w =
     (if method_name cfg = ''tracert'' \<and> startswith (platform env) ''win'' then
        (case tracert_trace cfg env w of
           (Inl e, w1) \<Rightarrow> (Inl e, w1)
         | (Inr hops, w1) \<Rightarrow> if hops \<noteq> [] then (Inr hops, w1) else scapy_trace cfg env w1)
      else if method_name cfg = ''scapy'' then scapy_trace cfg env w
      else tracert_trace cfg env w)"

subsection \<open>Concrete configurations and environments\<close>

text \<open>
  The inputs the closed theorems below evaluate the program on. \<open>w0\<close> is a world in
  which \<^verbatim>\<open>conf.iface\<close> names the interface \<^verbatim>\<open>lo\<close> and no call has been made.
  \<open>cfg_of t n m\<close> is the tracer \<^verbatim>\<open>MTRTracer(t, n, m)\<close>. \<open>env_of plat proc ifs answers\<close>
  is a platform named \<open>plat\<close> on which the subprocess call gives \<open>proc\<close>, the interface
  list is \<open>ifs\<close>, the probe with TTL \<open>ttl\<close> gives \<open>answers ttl\<close>, and every probe takes
  a hundredth of a second.
\<close>

definition w0 :: world where
  "w0 = \<lparr>conf_iface = ''lo'', calls = []\<rparr>"

definition cfg_of :: "string \<Rightarrow> int \<Rightarrow> string \<Rightarrow> config" where
  "cfg_of t n m = \<lparr>target_host = t, max_hops = n, method_name = m\<rparr>"

definition env_of ::
  "string \<Rightarrow> (exn + completed_process) \<Rightarrow> (exn + string list) \<Rightarrow> (int \<Rightarrow> exn + reply list) \<Rightarrow> env"
where
  "env_of plat proc ifs answers =
     \<lparr>platform = plat, subprocess_run = (\<lambda>argv t. proc), get_if_list = ifs,
      srp = (\<lambda>iface dst ttl t. answers ttl), elapsed = (\<lambda>ttl. 1 / 100)\<rparr>"

text \<open>
  No hop answers; the host \<open>a\<close> answers the probe with TTL \<open>n\<close> and no other hop does;
  every send is refused.
\<close>

definition no_answer :: "int \<Rightarrow> exn + reply list" where
  "no_answer ttl = Inr []"

definition answer_at :: "int \<Rightarrow> string \<Rightarrow> int \<Rightarrow> exn + reply list" where
  "answer_at n a ttl = (if ttl = n then Inr [Reply (Some a) ''02:00:00:00:00:01''] else Inr [])"


text \<open>A tool that exits with the status \<open>rc\<close> after writing \<open>text\<close>.\<close>

definition tool_output :: "int \<Rightarrow> string \<Rightarrow> exn + completed_process" where
  "tool_output rc text = Inr \<lparr>returncode = rc, stdout = text\<rparr>"

text \<open>The line feed, which ends each line of the example outputs.\<close>

definition newline :: string where
  "newline = [CHR 0x0A]"

subsection \<open>Notions the properties are stated with\<close>

text \<open>The texts an item of a pattern can consume.\<close>

fun conforms :: "item \<Rightarrow> string \<Rightarrow> bool" where
  "conforms (One p) g = (length g = 1 \<and> list_all p g)"
| "conforms (Opt p) g = (length g \<le> 1 \<and> list_all p g)"
| "conforms (Star p) g = list_all p g"
| "conforms (Plus p) g = (g \<noteq> [] \<and> list_all p g)"

text \<open>
  A text is an instance of a pattern when it can be cut into one piece per item, each
  piece a text its item can consume. A substring of a line that is an instance of
  \<open>rtt_re\<close> is what the specification calls a latency sample.
\<close>

definition instance_of :: "item list \<Rightarrow> string \<Rightarrow> bool" where
  "instance_of re t = (\<exists>gs. list_all2 conforms re gs \<and> concat gs = t)"

definition has_instance :: "item list \<Rightarrow> string \<Rightarrow> bool" where
  "has_instance re s = (\<exists>pre t post. s = pre @ t @ post \<and> instance_of re t)"

text \<open>
  A dotted quad, as the address pattern reads it: the whole text is one match of
  \<open>ip_re\<close>, four runs of decimal digits with a dot between them.
\<close>

definition is_dotted_quad :: "string \<Rightarrow> bool" where
  "is_dotted_quad t = (case re_match ip_re t of Some (gs, r) \<Rightarrow> r = [] | None \<Rightarrow> False)"

text \<open>A data line is a line the loop appends a record for.\<close>

definition is_data_line :: "string \<Rightarrow> bool" where
  "is_data_line raw = (case tracert_line raw of Inr (Some h) \<Rightarrow> True | _ \<Rightarrow> False)"

text \<open>The records of all data lines of an output, with no early stop.\<close>

fun records_of :: "string list \<Rightarrow> exn + hop_record list" where
  "records_of [] = Inr []"
| "records_of (raw # out) =
     (case tracert_line raw of
        Inl e \<Rightarrow> Inl e
      | Inr None \<Rightarrow> records_of out
      | Inr (Some h) \<Rightarrow> (case records_of out of Inl e \<Rightarrow> Inl e | Inr hs \<Rightarrow> Inr (h # hs)))"

text \<open>The arithmetic mean of the samples, and the sentinel when there is none.\<close>

definition mean_latency :: "int list \<Rightarrow> rat" where
  "mean_latency rtts = (if rtts \<noteq> [] then of_int (sum_list rtts) / of_nat (length rtts) else - 1)"

text \<open>A list of hop indices that is strictly increasing and starts at 1.\<close>

definition increasing_from_one :: "int list \<Rightarrow> bool" where
  "increasing_from_one ns = (sorted_wrt (<) ns \<and> (ns = [] \<or> hd ns = 1))"

section \<open>Properties\<close>

subsection \<open>The matcher finds exactly the instances of a pattern\<close>

lemma take_takeWhile_all: "k \<le> length (takeWhile p s) \<Longrightarrow> list_all p (take k s)"
proof -
  assume k: "k \<le> length (takeWhile p s)"
  have "take k s = take k (takeWhile p s @ dropWhile p s)" by simp
  also have "\<dots> = take k (takeWhile p s)" using k by (simp del: takeWhile_dropWhile_id)
  finally have "set (take k s) \<subseteq> set (takeWhile p s)" by (simp add: set_take_subset)
  then show ?thesis by (auto simp: list_all_iff dest: set_takeWhileD)
qed

lemma candidates_conform:
  "k \<in> set (candidates i s) \<Longrightarrow> k \<le> length s \<and> conforms i (take k s)"
proof (cases i)
  case (One p)
  assume "k \<in> set (candidates i s)"
  with One show ?thesis by (cases s) (auto split: if_splits)
next
  case (Opt p)
  assume "k \<in> set (candidates i s)"
  with Opt show ?thesis by (cases s) (auto split: if_splits)
next
  case (Star p)
  assume "k \<in> set (candidates i s)"
  with Star have k: "k \<le> length (takeWhile p s)" by auto
  moreover have "length (takeWhile p s) \<le> length s" by (rule length_takeWhile_le)
  ultimately show ?thesis using Star take_takeWhile_all [OF k] by simp
next
  case (Plus p)
  assume "k \<in> set (candidates i s)"
  with Plus have k: "k \<le> length (takeWhile p s)" and k1: "1 \<le> k" by auto
  moreover have "length (takeWhile p s) \<le> length s" by (rule length_takeWhile_le)
  ultimately show ?thesis using Plus take_takeWhile_all [OF k] by auto
qed

lemma first_some_Some: "first_some f xs = Some y \<Longrightarrow> \<exists>x\<in>set xs. f x = Some y"
  by (induction xs) (auto split: option.splits)

lemma first_some_None: "(first_some f xs = None) = (\<forall>x\<in>set xs. f x = None)"
  by (induction xs) (auto split: option.splits)

lemma re_match_sound:
  "re_match re s = Some (gs, r) \<Longrightarrow> s = concat gs @ r \<and> list_all2 conforms re gs"
proof (induction re arbitrary: s gs r)
  case Nil
  then show ?case by simp
next
  case (Cons i re)
  from Cons.prems obtain k where k: "k \<in> set (candidates i s)"
    and m: "(case re_match re (drop k s) of None \<Rightarrow> None
             | Some (gs', r') \<Rightarrow> Some (take k s # gs', r')) = Some (gs, r)"
    by (auto dest: first_some_Some)
  from m obtain gs' where m': "re_match re (drop k s) = Some (gs', r)" and gs: "gs = take k s # gs'"
    by (auto split: option.splits)
  from Cons.IH [OF m'] have "drop k s = concat gs' @ r" and "list_all2 conforms re gs'" by simp_all
  moreover from candidates_conform [OF k] have "conforms i (take k s)" by simp
  moreover have "s = take k s @ drop k s" by simp
  ultimately show ?case using gs by (metis concat.simps(2) append.assoc list_all2_Cons)
qed

lemma conforms_candidate: "conforms i g \<Longrightarrow> length g \<in> set (candidates i (g @ rest))"
proof (cases i)
  case (One p)
  assume "conforms i g"
  with One show ?thesis by (cases g) auto
next
  case (Opt p)
  assume "conforms i g"
  with Opt show ?thesis by (cases g) auto
next
  case (Star p)
  assume "conforms i g"
  with Star have "takeWhile p (g @ rest) = g @ takeWhile p rest"
    by (simp add: list_all_iff)
  with Star show ?thesis by auto
next
  case (Plus p)
  assume c: "conforms i g"
  with Plus have "takeWhile p (g @ rest) = g @ takeWhile p rest"
    by (simp add: list_all_iff)
  then have "length g \<le> length (takeWhile p (g @ rest))" by simp
  moreover from Plus c have "1 \<le> length g" by (cases g) auto
  ultimately show ?thesis using Plus by auto
qed

lemma re_match_complete:
  "list_all2 conforms re gs \<Longrightarrow> re_match re (concat gs @ r) \<noteq> None"
proof (induction re arbitrary: gs r)
  case Nil
  then show ?case by simp
next
  case (Cons i re)
  from Cons.prems obtain g gs' where gs: "gs = g # gs'" and g: "conforms i g"
    and gs': "list_all2 conforms re gs'"
    by (auto simp: list_all2_Cons1)
  from Cons.IH [OF gs', of r] obtain m where m: "re_match re (concat gs' @ r) = Some m"
    by auto
  define s where "s = g @ concat gs' @ r"
  define F where "F = (\<lambda>k. case re_match re (drop k s) of None \<Rightarrow> None
             | Some (gs', r') \<Rightarrow> Some (take k s # gs', r'))"
  have "length g \<in> set (candidates i s)"
    unfolding s_def by (rule conforms_candidate [OF g])
  moreover have "F (length g) \<noteq> None"
    using m by (cases m) (simp add: F_def s_def)
  ultimately have "first_some F (candidates i s) \<noteq> None"
    by (auto simp: first_some_None)
  moreover have "re_match (i # re) s = first_some F (candidates i s)"
    by (simp add: F_def)
  ultimately have "re_match (i # re) s \<noteq> None" by simp
  then show ?case using gs by (simp add: s_def)
qed

lemma re_match_instance:
  "(re_match re s \<noteq> None) = (\<exists>t post. s = t @ post \<and> instance_of re t)"
proof
  assume "re_match re s \<noteq> None"
  then obtain gs r where "re_match re s = Some (gs, r)" by auto
  from re_match_sound [OF this] show "\<exists>t post. s = t @ post \<and> instance_of re t"
    unfolding instance_of_def by blast
next
  assume "\<exists>t post. s = t @ post \<and> instance_of re t"
  then obtain gs post where "s = concat gs @ post" and "list_all2 conforms re gs"
    unfolding instance_of_def by blast
  then show "re_match re s \<noteq> None" using re_match_complete by blast
qed

lemma re_search_sound:
  "re_search re s = Some (gs, r) \<Longrightarrow> \<exists>pre. s = pre @ concat gs @ r \<and> list_all2 conforms re gs"
proof (induction s)
  case Nil
  then show ?case using re_match_sound [of re "[]" gs r] by simp
next
  case (Cons c cs)
  show ?case
  proof (cases "re_match re (c # cs)")
    case None
    with Cons.prems have "re_search re cs = Some (gs, r)" by simp
    from Cons.IH [OF this] obtain pre where "cs = pre @ concat gs @ r \<and> list_all2 conforms re gs" by blast
    then have "c # cs = (c # pre) @ concat gs @ r \<and> list_all2 conforms re gs" by simp
    then show ?thesis by blast
  next
    case (Some m)
    with Cons.prems have "re_match re (c # cs) = Some (gs, r)" by simp
    from re_match_sound [OF this] have "c # cs = [] @ concat gs @ r \<and> list_all2 conforms re gs" by simp
    then show ?thesis by blast
  qed
qed

lemma re_search_None: "(re_search re s = None) = (\<not> has_instance re s)"
proof (induction s)
  case Nil
  have "has_instance re [] = (\<exists>t post. [] = t @ post \<and> instance_of re t)"
    by (auto simp: has_instance_def)
  also have "\<dots> = (re_match re [] \<noteq> None)" by (rule re_match_instance [symmetric])
  finally show ?case by (cases "re_match re []") auto
next
  case (Cons c cs)
  show ?case
  proof (cases "re_match re (c # cs)")
    case None
    then have no: "\<not> (\<exists>t post. c # cs = t @ post \<and> instance_of re t)"
      using re_match_instance [of re "c # cs"] by simp
    have "has_instance re (c # cs) = has_instance re cs"
    proof
      assume "has_instance re (c # cs)"
      then obtain pre t post where d: "c # cs = pre @ t @ post" and t: "instance_of re t"
        unfolding has_instance_def by blast
      show "has_instance re cs"
      proof (cases pre)
        case Nil
        with d t no show ?thesis by auto
      next
        case (Cons x pre')
        with d have "cs = pre' @ t @ post" by simp
        with t show ?thesis unfolding has_instance_def by blast
      qed
    next
      assume "has_instance re cs"
      then obtain pre t post where "cs = pre @ t @ post" and t: "instance_of re t"
        unfolding has_instance_def by blast
      then have "c # cs = (c # pre) @ t @ post" by simp
      with t show "has_instance re (c # cs)" unfolding has_instance_def by blast
    qed
    with None Cons.IH show ?thesis by simp
  next
    case (Some m)
    then have "\<exists>t post. c # cs = t @ post \<and> instance_of re t"
      using re_match_instance [of re "c # cs"] by simp
    then obtain t post where "c # cs = [] @ t @ post" and "instance_of re t" by auto
    then have "has_instance re (c # cs)" unfolding has_instance_def by blast
    with Some show ?thesis by simp
  qed
qed

lemma re_findall_sound:
  "gs \<in> set (re_findall re s) \<Longrightarrow> \<exists>pre r. s = pre @ concat gs @ r \<and> list_all2 conforms re gs"
proof (induction re s rule: re_findall.induct)
  case (1 re)
  then obtain r where m: "re_match re [] = Some (gs, r)"
    by (cases "re_match re []") auto
  from re_match_sound [OF m] have "r = []" by simp
  with m have "re_match re [] = Some (gs, [])" by simp
  from re_match_sound [OF this] have "[] = [] @ concat gs @ [] \<and> list_all2 conforms re gs" by simp
  then show ?case by blast
next
  case (2 re c cs)
  show ?case
  proof (cases "re_match re (c # cs)")
    case None
    with 2 have "gs \<in> set (re_findall re cs)" by simp
    from "2.IH"(1) [OF None this] obtain pre r where "cs = pre @ concat gs @ r \<and> list_all2 conforms re gs" by blast
    then have "c # cs = (c # pre) @ concat gs @ r \<and> list_all2 conforms re gs" by simp
    then show ?thesis by blast
  next
    case (Some m)
    obtain gs' r' where m: "m = (gs', r')" by (cases m)
    from re_match_sound [of re "c # cs" gs' r'] Some m
    have s: "c # cs = concat gs' @ r'" and c: "list_all2 conforms re gs'" by simp_all
    let ?next = "if length r' \<le> length cs then r' else cs"
    from "2.prems" Some m have "gs = gs' \<or> gs \<in> set (re_findall re ?next)" by simp
    then show ?thesis
    proof
      assume "gs = gs'"
      with s c have "c # cs = [] @ concat gs @ r' \<and> list_all2 conforms re gs" by simp
      then show ?thesis by blast
    next
      assume "gs \<in> set (re_findall re ?next)"
      from "2.IH"(2) [OF Some m [symmetric] this]
      obtain pre r where n: "?next = pre @ concat gs @ r" and g: "list_all2 conforms re gs" by blast
      have "\<exists>p. c # cs = p @ ?next" using s by (cases "length r' \<le> length cs") (auto intro: exI [of _ "[c]"])
      then obtain p where "c # cs = p @ ?next" by blast
      with n have "c # cs = (p @ pre) @ concat gs @ r" by simp
      with g show ?thesis by blast
    qed
  qed
qed

lemma re_findall_Nil: "(re_findall re s = []) = (re_search re s = None)"
  by (induction re s rule: re_findall.induct) (auto split: option.splits)

subsection \<open>One line of the tool's output\<close>

lemma rtt_group:
  "list_all2 conforms rtt_re gs \<Longrightarrow> gs ! 1 \<noteq> [] \<and> list_all is_decimal (gs ! 1)"
  by (auto simp: rtt_re_def list_all2_Cons1)

lemma rtt_findall_decimal:
  "m \<in> set (rtt_findall line) \<Longrightarrow> m \<noteq> [] \<and> list_all is_decimal m"
  unfolding rtt_findall_def using re_findall_sound rtt_group by fastforce

lemma int_all_decimal:
  "\<forall>m\<in>set ms. m \<noteq> [] \<and> list_all is_decimal m \<Longrightarrow> int_all ms = Inr (map decimal_value ms)"
  by (induction ms) (auto simp: py_int_def)

lemma int_all_rtt: "int_all (rtt_findall line) = Inr (map decimal_value (rtt_findall line))"
  by (rule int_all_decimal) (auto dest: rtt_findall_decimal)

lemma foldl_decimal_nonneg: "0 \<le> a \<Longrightarrow> 0 \<le> foldl (\<lambda>a c. 10 * a + digit_value c) a s"
  by (induction s arbitrary: a) (auto simp: digit_value_def)

lemma decimal_value_nonneg: "0 \<le> decimal_value s"
  unfolding decimal_value_def by (rule foldl_decimal_nonneg) simp


lemma tracert_line_Some:
  assumes "tracert_line raw = Inr (Some h)"
  shows "py_split (strip raw) \<noteq> []"
    and "isdigit (hd (py_split (strip raw)))"
    and "py_int (hd (py_split (strip raw))) = Inr (hop h)"
    and "ip h = ip_of_line (strip raw)"
    and "latency h = mean_latency (map decimal_value (rtt_findall (strip raw)))"
  using assms
  by (auto simp: tracert_line_def Let_def int_all_rtt mean_latency_def split: if_splits sum.splits)


lemma sum_list_nonneg_int: "\<forall>x\<in>set xs. (0::int) \<le> x \<Longrightarrow> 0 \<le> sum_list xs"
  by (induction xs) auto

lemma mean_latency_sentinel:
  "(mean_latency (map decimal_value ms) = - 1) = (ms = [])"
proof (cases "ms = []")
  case True
  then show ?thesis by (simp add: mean_latency_def)
next
  case False
  have "0 \<le> sum_list (map decimal_value ms)"
    by (rule sum_list_nonneg_int) (auto simp: decimal_value_nonneg)
  then have "(0::rat) \<le> of_int (sum_list (map decimal_value ms)) / of_nat (length ms)"
    by simp
  with False show ?thesis by (simp add: mean_latency_def)
qed

lemma ip_instance_not_star:
  assumes "list_all2 conforms ip_re gs" shows "concat gs \<noteq> ''*''"
proof -
  from assms obtain a rest where gs: "gs = a # rest" and a: "a \<noteq> []" "list_all is_decimal a"
    by (auto simp: ip_re_def list_all2_Cons1)
  then obtain c cs where "a = c # cs" and "is_decimal c" by (cases a) auto
  with gs show ?thesis by (auto simp: is_decimal_def)
qed

lemma ip_of_line_star: "(ip_of_line line = ''*'') = (\<not> has_instance ip_re line)"
proof (cases "re_search ip_re line")
  case None
  then show ?thesis using re_search_None [of ip_re line] by (simp add: ip_of_line_def)
next
  case (Some m)
  obtain gs r where m: "m = (gs, r)" by (cases m)
  from re_search_sound [of ip_re line gs r] Some m have "list_all2 conforms ip_re gs" by auto
  then have "concat gs \<noteq> ''*''" by (rule ip_instance_not_star)
  moreover have "has_instance ip_re line" using re_search_None [of ip_re line] Some by simp
  ultimately show ?thesis using Some m by (simp add: ip_of_line_def)
qed

lemma re_match_Plus_first:
  assumes "list_all p a" "a \<noteq> []" "rest = [] \<or> \<not> p (hd rest)"
    and "re_match re rest = Some (gs, r)"
  shows "re_match (Plus p # re) (a @ rest) = Some (a # gs, r)"
proof -
  have tw: "takeWhile p (a @ rest) = a"
    using assms(1,3) by (cases rest) (auto simp: list_all_iff)
  have n: "1 \<le> length a" using assms(2) by (cases a) auto
  have "candidates (Plus p) (a @ rest) = rev [1..<Suc (length a)]"
    by (simp only: candidates.simps tw)
  also have "\<dots> = length a # rev [1..<length a]" using n by simp
  finally show ?thesis using assms(4) by simp
qed

lemma re_match_One_first:
  assumes "p c" and "re_match re rest = Some (gs, r)"
  shows "re_match (One p # re) (c # rest) = Some ([c] # gs, r)"
  using assms by simp

lemma ip_instance_dotted_quad:
  assumes "list_all2 conforms ip_re gs" shows "is_dotted_quad (concat gs)"
proof -
  let ?dot = "\<lambda>c. c = CHR ''.''"
  from assms obtain a x b y c z d where gs: "gs = [a, x, b, y, c, z, d]"
    and a: "a \<noteq> []" "list_all is_decimal a" and b: "b \<noteq> []" "list_all is_decimal b"
    and c: "c \<noteq> []" "list_all is_decimal c" and d: "d \<noteq> []" "list_all is_decimal d"
    and x: "x = ''.''" and y: "y = ''.''" and z: "z = ''.''"
    by (auto simp: ip_re_def list_all2_Cons1 length_Suc_conv)
  have nd: "\<not> is_decimal (CHR ''.'')" by (simp add: is_decimal_def)
  have 1: "re_match [Plus is_decimal] (d @ []) = Some ([d], [])"
    by (rule re_match_Plus_first) (use d in auto)
  have 2: "re_match [One ?dot, Plus is_decimal] (CHR ''.'' # d) = Some ([''.'', d], [])"
    by (rule re_match_One_first) (use 1 in auto)
  have 3: "re_match [Plus is_decimal, One ?dot, Plus is_decimal] (c @ CHR ''.'' # d) = Some ([c, ''.'', d], [])"
    by (rule re_match_Plus_first) (use c nd 2 in auto)
  have 4: "re_match [One ?dot, Plus is_decimal, One ?dot, Plus is_decimal] (CHR ''.'' # c @ CHR ''.'' # d)
     = Some ([''.'', c, ''.'', d], [])"
    by (rule re_match_One_first) (use 3 in auto)
  have 5: "re_match [Plus is_decimal, One ?dot, Plus is_decimal, One ?dot, Plus is_decimal]
       (b @ CHR ''.'' # c @ CHR ''.'' # d) = Some ([b, ''.'', c, ''.'', d], [])"
    by (rule re_match_Plus_first) (use b nd 4 in auto)
  have 6: "re_match [One ?dot, Plus is_decimal, One ?dot, Plus is_decimal, One ?dot, Plus is_decimal]
       (CHR ''.'' # b @ CHR ''.'' # c @ CHR ''.'' # d) = Some ([''.'', b, ''.'', c, ''.'', d], [])"
    by (rule re_match_One_first) (use 5 in auto)
  have 7: "re_match ip_re (a @ CHR ''.'' # b @ CHR ''.'' # c @ CHR ''.'' # d)
       = Some ([a, ''.'', b, ''.'', c, ''.'', d], [])"
    unfolding ip_re_def by (rule re_match_Plus_first) (use a nd 6 in auto)
  show ?thesis using 7 gs x y z by (simp add: is_dotted_quad_def)
qed

lemma ip_of_line_shape: "ip_of_line line = ''*'' \<or> is_dotted_quad (ip_of_line line)"
proof (cases "re_search ip_re line")
  case None
  then show ?thesis by (simp add: ip_of_line_def)
next
  case (Some m)
  obtain gs r where m: "m = (gs, r)" by (cases m)
  from re_search_sound [of ip_re line gs r] Some m have "list_all2 conforms ip_re gs" by auto
  then have "is_dotted_quad (concat gs)" by (rule ip_instance_dotted_quad)
  then show ?thesis using Some m by (simp add: ip_of_line_def)
qed

subsection \<open>The probing loop\<close>

lemma conf_iface_log_call: "conf_iface (log_call c w) = conf_iface w"
  by (simp add: log_call_def)

lemma calls_log_call: "calls (log_call c w) = calls w @ [c]"
  by (simp add: log_call_def)

text \<open>One turn of the probing loop: it raises, appends a timeout and goes on, appends the
  target's reply and stops, or appends another reply and goes on.\<close>

lemma scapy_loop_step:
  fixes cfg env ttl ttls hops w
  defines "w1 \<equiv> log_call (Srp (conf_iface w) (target_host cfg) ttl 2) w"
  defines "run \<equiv> scapy_loop cfg env (ttl # ttls) hops w"
  obtains
    (raised) e where "srp env (conf_iface w) (target_host cfg) ttl 2 = Inl e"
      and "run = (Inl e, w1)"
  | (silent) "srp env (conf_iface w) (target_host cfg) ttl 2 = Inr []"
      and "run = scapy_loop cfg env ttls (hops @ [\<lparr>hop = ttl, ip = ''*'', latency = - 1\<rparr>]) w1"
  | (final) r rs where "srp env (conf_iface w) (target_host cfg) ttl 2 = Inr (r # rs)"
      and "reply_addr r = target_host cfg"
      and "run = (Inr (hops @ [\<lparr>hop = ttl, ip = reply_addr r, latency = elapsed env ttl * 1000\<rparr>]), w1)"
  | (onward) r rs where "srp env (conf_iface w) (target_host cfg) ttl 2 = Inr (r # rs)"
      and "reply_addr r \<noteq> target_host cfg"
      and "run = scapy_loop cfg env ttls
             (hops @ [\<lparr>hop = ttl, ip = reply_addr r, latency = elapsed env ttl * 1000\<rparr>]) w1"
proof (cases "srp env (conf_iface w) (target_host cfg) ttl 2")
  case (Inl e)
  then show ?thesis using raised by (simp add: run_def w1_def)
next
  case (Inr ans)
  show ?thesis
  proof (cases ans)
    case Nil
    with Inr show ?thesis using silent by (simp add: run_def w1_def)
  next
    case (Cons r rs)
    with Inr show ?thesis using final [of r rs] onward [of r rs]
      by (cases "reply_addr r = target_host cfg") (simp_all add: run_def w1_def Let_def)
  qed
qed

lemma scapy_loop_conf_iface:
  "conf_iface (snd (scapy_loop cfg env ttls hops w)) = conf_iface w"
proof (induction ttls arbitrary: hops w)
  case Nil
  then show ?case by simp
next
  case (Cons ttl ttls)
  show ?case
    by (cases rule: scapy_loop_step [of env w cfg ttl ttls hops])
       (simp_all add: Cons.IH conf_iface_log_call)
qed

lemma scapy_loop_calls:
  "\<exists>n\<le>length ttls. (ttls \<noteq> [] \<longrightarrow> 0 < n) \<and>
     calls (snd (scapy_loop cfg env ttls hops w)) =
       calls w @ map (\<lambda>ttl. Srp (conf_iface w) (target_host cfg) ttl 2) (take n ttls)"
proof (induction ttls arbitrary: hops w)
  case Nil
  then show ?case by simp
next
  case (Cons ttl ttls)
  let ?w1 = "log_call (Srp (conf_iface w) (target_host cfg) ttl 2) w"
  let ?f = "\<lambda>ttl. Srp (conf_iface w) (target_host cfg) ttl 2"
  let ?P = "\<lambda>w'. \<exists>n\<le>length (ttl # ttls). (ttl # ttls \<noteq> [] \<longrightarrow> 0 < n) \<and>
     calls w' = calls w @ map ?f (take n (ttl # ttls))"
  have stop: "?P ?w1"
    by (intro exI [of _ 1]) (simp add: calls_log_call)
  have go: "?P (snd (scapy_loop cfg env ttls hs ?w1))" for hs
  proof -
    from Cons.IH [of hs ?w1] obtain n where "n \<le> length ttls"
      and "calls (snd (scapy_loop cfg env ttls hs ?w1)) = calls ?w1 @ map ?f (take n ttls)"
      by (auto simp: conf_iface_log_call)
    then show ?thesis
      by (intro exI [of _ "Suc n"]) (simp add: calls_log_call)
  qed
  show ?case
    by (cases rule: scapy_loop_step [of env w cfg ttl ttls hops]) (use stop go in simp_all)
qed


lemma scapy_loop_hops:
  "scapy_loop cfg env ttls hops w = (Inr hs, w') \<Longrightarrow>
     \<exists>n\<le>length ttls. (ttls \<noteq> [] \<longrightarrow> 0 < n) \<and> map hop hs = map hop hops @ take n ttls"
proof (induction ttls arbitrary: hops w)
  case Nil
  then show ?case by auto
next
  case (Cons ttl ttls)
  let ?w1 = "log_call (Srp (conf_iface w) (target_host cfg) ttl 2) w"
  let ?P = "\<lambda>hs. \<exists>n\<le>length (ttl # ttls). (ttl # ttls \<noteq> [] \<longrightarrow> 0 < n) \<and>
     map hop hs = map hop hops @ take n (ttl # ttls)"
  have go: "?P hs"
    if "scapy_loop cfg env ttls (hops @ [h]) ?w1 = (Inr hs, w')" and "hop h = ttl" for h
  proof -
    from Cons.IH [OF that(1)] obtain n where "n \<le> length ttls"
      and "map hop hs = map hop (hops @ [h]) @ take n ttls" by blast
    then show ?thesis using that(2)
      by (intro exI [of _ "Suc n"]) simp
  qed
  have stop: "?P (hops @ [h])" if "hop h = ttl" for h
    using that by (intro exI [of _ 1]) simp
  show ?case
  proof (cases rule: scapy_loop_step [of env w cfg ttl ttls hops])
    case (raised e)
    with Cons.prems show ?thesis by simp
  next
    case silent
    with Cons.prems show ?thesis using go [of "\<lparr>hop = ttl, ip = ''*'', latency = - 1\<rparr>"] by simp
  next
    case (final r rs)
    with Cons.prems show ?thesis
      using stop [of "\<lparr>hop = ttl, ip = reply_addr r, latency = elapsed env ttl * 1000\<rparr>"] by auto
  next
    case (onward r rs)
    with Cons.prems show ?thesis
      using go [of "\<lparr>hop = ttl, ip = reply_addr r, latency = elapsed env ttl * 1000\<rparr>"] by simp
  qed
qed

lemma scapy_loop_sentinel:
  assumes "\<forall>ttl r rs. srp env (conf_iface w) (target_host cfg) ttl 2 = Inr (r # rs) \<longrightarrow> reply_addr r \<noteq> ''*''"
    and "scapy_loop cfg env ttls hops w = (Inr hs, w')"
    and "\<forall>h\<in>set hops. ip h = ''*'' \<longrightarrow> latency h = - 1"
  shows "\<forall>h\<in>set hs. ip h = ''*'' \<longrightarrow> latency h = - 1"
  using assms
proof (induction ttls arbitrary: hops w)
  case Nil
  then show ?case by auto
next
  case (Cons ttl ttls)
  let ?w1 = "log_call (Srp (conf_iface w) (target_host cfg) ttl 2) w"
  have env1: "\<forall>ttl r rs. srp env (conf_iface ?w1) (target_host cfg) ttl 2 = Inr (r # rs) \<longrightarrow> reply_addr r \<noteq> ''*''"
    using Cons.prems(1) by (simp add: conf_iface_log_call)
  note IH = Cons.IH [OF env1]
  show ?case
  proof (cases rule: scapy_loop_step [of env w cfg ttl ttls hops])
    case (raised e)
    with Cons.prems(2) show ?thesis by simp
  next
    case silent
    with Cons.prems(2) have "scapy_loop cfg env ttls (hops @ [\<lparr>hop = ttl, ip = ''*'', latency = - 1\<rparr>]) ?w1 = (Inr hs, w')"
      by simp
    from IH [OF this] Cons.prems(3) show ?thesis by simp
  next
    case (final r rs)
    from Cons.prems(1) final(1) have "reply_addr r \<noteq> ''*''" by blast
    with final(3) Cons.prems(2,3) show ?thesis by auto
  next
    case (onward r rs)
    from Cons.prems(1) onward(1) have r: "reply_addr r \<noteq> ''*''" by blast
    from onward(3) Cons.prems(2) have "scapy_loop cfg env ttls
             (hops @ [\<lparr>hop = ttl, ip = reply_addr r, latency = elapsed env ttl * 1000\<rparr>]) ?w1 = (Inr hs, w')"
      by simp
    from IH [OF this] Cons.prems(3) r show ?thesis by simp
  qed
qed

lemma take_upto_one: "n \<le> length [1..m] \<Longrightarrow> take n [1..m] = [1..int n]"
  by (auto simp: list_eq_iff_nth_eq)

subsection \<open>The loop over the tool's output\<close>

lemma tracert_loop_no_stop:
  "\<forall>raw\<in>set out. \<forall>h. tracert_line raw = Inr (Some h) \<longrightarrow> ip h \<noteq> target \<Longrightarrow>
     tracert_loop target (out @ rest) hops =
       (case records_of out of Inl e \<Rightarrow> Inl e | Inr hs \<Rightarrow> tracert_loop target rest (hops @ hs))"
proof (induction out arbitrary: hops)
  case Nil
  then show ?case by simp
next
  case (Cons raw out)
  then have IH: "tracert_loop target (out @ rest) hs' =
       (case records_of out of Inl e \<Rightarrow> Inl e | Inr hs \<Rightarrow> tracert_loop target rest (hs' @ hs))" for hs'
    by simp
  show ?case
  proof (cases "tracert_line raw")
    case (Inl e)
    then show ?thesis by simp
  next
    case (Inr res)
    show ?thesis
    proof (cases res)
      case None
      with Inr IH show ?thesis by simp
    next
      case (Some h)
      with Inr Cons.prems have "ip h \<noteq> target" by simp
      with Inr Some IH show ?thesis by (simp split: sum.splits)
    qed
  qed
qed


lemma tracert_loop_prefix:
  "tracert_loop target out hops = Inr hs \<Longrightarrow>
     \<exists>n hs'. records_of (take n out) = Inr hs' \<and> hs = hops @ hs'"
proof (induction out arbitrary: hops)
  case Nil
  then show ?case by simp
next
  case (Cons raw out)
  show ?case
  proof (cases "tracert_line raw")
    case (Inl e)
    with Cons.prems show ?thesis by simp
  next
    case (Inr res)
    show ?thesis
    proof (cases res)
      case None
      with Inr Cons.prems have "tracert_loop target out hops = Inr hs" by simp
      from Cons.IH [OF this] obtain n hs' where "records_of (take n out) = Inr hs'" "hs = hops @ hs'"
        by blast
      with Inr None have "records_of (take (Suc n) (raw # out)) = Inr hs' \<and> hs = hops @ hs'" by simp
      then show ?thesis by blast
    next
      case (Some h)
      show ?thesis
      proof (cases "ip h = target")
        case True
        with Inr Some Cons.prems have "hs = hops @ [h]" by simp
        moreover from Inr Some have "records_of (take 1 (raw # out)) = Inr [h]" by simp
        ultimately show ?thesis by blast
      next
        case False
        with Inr Some Cons.prems have "tracert_loop target out (hops @ [h]) = Inr hs" by simp
        from Cons.IH [OF this] obtain n hs' where "records_of (take n out) = Inr hs'" "hs = (hops @ [h]) @ hs'"
          by blast
        with Inr Some have "records_of (take (Suc n) (raw # out)) = Inr (h # hs') \<and> hs = hops @ h # hs'" by simp
        then show ?thesis by blast
      qed
    qed
  qed
qed

lemma length_records_of:
  "records_of out = Inr hs \<Longrightarrow> length hs = length (filter is_data_line out)"
  by (induction out arbitrary: hs)
     (auto simp: is_data_line_def split: sum.splits option.splits)

subsection \<open>The strategies\<close>



lemma scapy_trace_hops:
  assumes "scapy_trace cfg env w = (Inr hs, w')"
  shows "map hop hs = [1..int (length hs)]"
    and "int (length hs) \<le> max 0 (max_hops cfg)"
    and "1 \<le> max_hops cfg \<Longrightarrow> hs \<noteq> []"
proof -
  from assms obtain w2 where run: "scapy_loop cfg env [1..max_hops cfg] [] w2 = (Inr hs, w')"
    by (cases "get_if_list env") (simp_all add: scapy_trace_def Let_def)
  from scapy_loop_hops [OF run] obtain n where n: "n \<le> length [1..max_hops cfg]"
    and pos: "[1..max_hops cfg] \<noteq> [] \<longrightarrow> 0 < n"
    and hs: "map hop hs = take n [1..max_hops cfg]" by auto
  from hs n have len: "length hs = n"
    by (metis length_map length_take min.absorb2)
  from hs n len show "map hop hs = [1..int (length hs)]" by (simp add: take_upto_one)
  from n len show "int (length hs) \<le> max 0 (max_hops cfg)" by simp
  show "hs \<noteq> []" if "1 \<le> max_hops cfg"
  proof -
    from that have "[1..max_hops cfg] \<noteq> []" by (simp add: upto.simps)
    with pos len show ?thesis by auto
  qed
qed

lemma increasing_from_one_upto: "increasing_from_one [1..n]"
proof -
  have "sorted_wrt (<) [1..n]" by (simp add: strict_sorted_iff)
  moreover have "[1..n] = [] \<or> hd [1..n] = 1" by (cases "1 \<le> n") (simp_all add: upto.simps)
  ultimately show ?thesis by (simp add: increasing_from_one_def)
qed

section \<open>The claims\<close>

subsection \<open>C1: the fall-back\<close>

text \<open>
  Claim C1, as amended. The fall-back to raw probing is tied to one configuration: when
  the method is \<^verbatim>\<open>"tracert"\<close> and the platform name starts with \<^verbatim>\<open>"win"\<close>, an empty
  result of the external-tool strategy makes \<open>trace\<close> run the raw-probe strategy, from
  the world the tool left, and return whatever it returns (an empty list included). With
  any other platform or method except \<^verbatim>\<open>"scapy"\<close> the result of the external-tool strategy
  is returned as it is, empty or not.
\<close>

theorem trace_fallback:
  "(method_name cfg = ''tracert'' \<and> startswith (platform env) ''win'' \<and>
      fst (tracert_trace cfg env w) = Inr [] \<longrightarrow>
        trace cfg env w = scapy_trace cfg env (snd (tracert_trace cfg env w))) \<and>
   (\<not> (method_name cfg = ''tracert'' \<and> startswith (platform env) ''win'') \<and> method_name cfg \<noteq> ''scapy'' \<longrightarrow>
        trace cfg env w = tracert_trace cfg env w)"
  by (cases "tracert_trace cfg env w") (auto simp: trace_def)

text \<open>
  The theorem at work: on \<^verbatim>\<open>win32\<close> a missing tool leads to raw probing, and with an
  unknown method the tool's strategy is all that runs.
\<close>

theorem trace_fallback_witness:
  "method_name (cfg_of ''10.0.0.1'' 30 ''tracert'') = ''tracert'' \<and>
   startswith (platform (env_of ''win32'' (Inl FileNotFoundError) (Inr [''eth0'']) (answer_at 1 ''10.0.0.1''))) ''win'' \<and>
   fst (tracert_trace (cfg_of ''10.0.0.1'' 30 ''tracert'')
      (env_of ''win32'' (Inl FileNotFoundError) (Inr [''eth0'']) (answer_at 1 ''10.0.0.1'')) w0) = Inr [] \<and>
   trace (cfg_of ''10.0.0.1'' 30 ''tracert'')
      (env_of ''win32'' (Inl FileNotFoundError) (Inr [''eth0'']) (answer_at 1 ''10.0.0.1'')) w0 =
     scapy_trace (cfg_of ''10.0.0.1'' 30 ''tracert'')
      (env_of ''win32'' (Inl FileNotFoundError) (Inr [''eth0'']) (answer_at 1 ''10.0.0.1''))
      (snd (tracert_trace (cfg_of ''10.0.0.1'' 30 ''tracert'')
        (env_of ''win32'' (Inl FileNotFoundError) (Inr [''eth0'']) (answer_at 1 ''10.0.0.1'')) w0)) \<and>
   method_name (cfg_of ''10.0.0.1'' 30 ''ping'') \<noteq> ''scapy'' \<and>
   trace (cfg_of ''10.0.0.1'' 30 ''ping'')
      (env_of ''win32'' (Inl FileNotFoundError) (Inr [''eth0'']) (answer_at 1 ''10.0.0.1'')) w0 =
     tracert_trace (cfg_of ''10.0.0.1'' 30 ''ping'')
      (env_of ''win32'' (Inl FileNotFoundError) (Inr [''eth0'']) (answer_at 1 ''10.0.0.1'')) w0"
proof -
  let ?c = "cfg_of ''10.0.0.1'' 30 ''tracert''"
  let ?d = "cfg_of ''10.0.0.1'' 30 ''ping''"
  let ?e = "env_of ''win32'' (Inl FileNotFoundError) (Inr [''eth0'']) (answer_at 1 ''10.0.0.1'')"
  have a: "method_name ?c = ''tracert''" by (simp add: cfg_of_def)
  have b: "startswith (platform ?e) ''win''" by (simp add: env_of_def startswith_def)
  have c: "fst (tracert_trace ?c ?e w0) = Inr []" by code_simp
  have d: "method_name ?d \<noteq> ''scapy''" "method_name ?d \<noteq> ''tracert''" by (simp_all add: cfg_of_def)
  from trace_fallback [of ?c ?e w0] a b c trace_fallback [of ?d ?e w0] d
  show ?thesis by blast
qed

text \<open>
  Claim C1 as stated fails: on \<^verbatim>\<open>linux\<close> with the default method the tool is missing, the
  external-tool strategy returns no hop, and \<open>trace\<close> returns that empty list after two
  calls (the subprocess and the message), although raw probing would have found the
  target at the first hop.
\<close>

theorem trace_fallback_counterexample:
  "fst (tracert_trace (cfg_of ''10.0.0.1'' 30 ''tracert'')
      (env_of ''linux'' (Inl FileNotFoundError) (Inr [''eth0'']) (answer_at 1 ''10.0.0.1'')) w0) = Inr [] \<and>
   trace (cfg_of ''10.0.0.1'' 30 ''tracert'')
      (env_of ''linux'' (Inl FileNotFoundError) (Inr [''eth0'']) (answer_at 1 ''10.0.0.1'')) w0 =
     (Inr [], \<lparr>conf_iface = ''lo'', calls =
        [Subprocess_run [''tracert'', ''-d'', ''-w'', ''200'', ''10.0.0.1''] 60,
         Print_tracert_failed FileNotFoundError]\<rparr>) \<and>
   fst (scapy_trace (cfg_of ''10.0.0.1'' 30 ''tracert'')
      (env_of ''linux'' (Inl FileNotFoundError) (Inr [''eth0'']) (answer_at 1 ''10.0.0.1''))
      (snd (tracert_trace (cfg_of ''10.0.0.1'' 30 ''tracert'')
        (env_of ''linux'' (Inl FileNotFoundError) (Inr [''eth0'']) (answer_at 1 ''10.0.0.1'')) w0))) =
     Inr [\<lparr>hop = 1, ip = ''10.0.0.1'', latency = 10\<rparr>]"
  by code_simp

subsection \<open>C2: exceptions\<close>




text \<open>
  The third source of an exception: a first token that passes \<^verbatim>\<open>isdigit()\<close> and that
  \<^verbatim>\<open>int()\<close> rejects. Here it is the superscript two (U+00B2); the \<open>ValueError\<close> is raised
  outside the \<^verbatim>\<open>try\<close> of the external-tool strategy and leaves \<open>trace\<close>.
\<close>

theorem trace_raises_on_superscript_hop:
  "isdigit [CHR 0xB2] \<and> py_int [CHR 0xB2] = Inl ValueError \<and>
   fst (trace (cfg_of ''10.0.0.1'' 30 ''tracert'')
      (env_of ''win32'' (tool_output 0 (CHR 0xB2 # ''     5 ms     4 ms     6 ms  10.0.0.1''))
         (Inr [''eth0'']) (answer_at 1 ''10.0.0.1'')) w0) = Inl ValueError"
  by code_simp

subsection \<open>C3: hop indices\<close>

text \<open>
  Claim C3, as amended. The raw-probe strategy numbers its records 1, 2, ..., k with
  \<open>k\<close> at most \<^verbatim>\<open>max_hops\<close>: strictly increasing from 1. The external-tool strategy takes
  each hop index from the text: it is the integer value of the first token of the
  record's line, and the records returned are those of the data lines of a prefix of the
  output, in their order. So the indices of that path are whatever the tool printed.
\<close>

theorem hop_index_of_strategies:
  "(scapy_trace cfg env w = (Inr hops, w') \<longrightarrow>
      map hop hops = [1..int (length hops)] \<and> increasing_from_one (map hop hops) \<and>
      int (length hops) \<le> max 0 (max_hops cfg)) \<and>
   (tracert_line raw = Inr (Some h) \<longrightarrow> py_int (hd (py_split (strip raw))) = Inr (hop h)) \<and>
   (tracert_loop target out [] = Inr hs \<longrightarrow> (\<exists>n. records_of (take n out) = Inr hs))"
proof (intro conjI impI)
  assume run: "scapy_trace cfg env w = (Inr hops, w')"
  from scapy_trace_hops(1) [OF run] show m: "map hop hops = [1..int (length hops)]" .
  show "increasing_from_one (map hop hops)" by (subst m) (rule increasing_from_one_upto)
  from scapy_trace_hops(2) [OF run] show "int (length hops) \<le> max 0 (max_hops cfg)" .
next
  assume "tracert_line raw = Inr (Some h)"
  then show "py_int (hd (py_split (strip raw))) = Inr (hop h)" by (rule tracert_line_Some(3))
next
  assume "tracert_loop target out [] = Inr hs"
  from tracert_loop_prefix [OF this] show "\<exists>n. records_of (take n out) = Inr hs" by auto
qed

text \<open>
  The theorem at work: three probes with the target answering the third, and a line of
  the tool numbered 7.
\<close>

theorem hop_index_of_strategies_witness:
  "scapy_trace (cfg_of ''10.0.0.1'' 30 ''scapy'')
      (env_of ''linux'' (Inl FileNotFoundError) (Inr [''eth0'']) (answer_at 3 ''10.0.0.1'')) w0 =
     (Inr [\<lparr>hop = 1, ip = ''*'', latency = - 1\<rparr>, \<lparr>hop = 2, ip = ''*'', latency = - 1\<rparr>,
           \<lparr>hop = 3, ip = ''10.0.0.1'', latency = 10\<rparr>],
      \<lparr>conf_iface = ''eth0'', calls = [Get_if_list, Srp ''eth0'' ''10.0.0.1'' 1 2,
          Srp ''eth0'' ''10.0.0.1'' 2 2, Srp ''eth0'' ''10.0.0.1'' 3 2]\<rparr>) \<and>
   increasing_from_one (map hop [\<lparr>hop = 1, ip = ''*'', latency = - 1\<rparr>,
      \<lparr>hop = 2, ip = ''*'', latency = - 1\<rparr>, \<lparr>hop = 3, ip = ''10.0.0.1'', latency = 10\<rparr>]) \<and>
   tracert_line ''  7     5 ms     4 ms     6 ms  10.0.0.7'' =
     Inr (Some \<lparr>hop = 7, ip = ''10.0.0.7'', latency = 5\<rparr>) \<and>
   py_int (hd (py_split (strip ''  7     5 ms     4 ms     6 ms  10.0.0.7''))) =
     Inr (hop \<lparr>hop = 7, ip = ''10.0.0.7'', latency = 5\<rparr>) \<and>
   tracert_loop ''10.0.0.7''
     [''  7     5 ms     4 ms     6 ms  10.0.0.7'', ''  8     5 ms     4 ms     6 ms  10.0.0.8''] [] =
     Inr [\<lparr>hop = 7, ip = ''10.0.0.7'', latency = 5\<rparr>]"
proof -
  let ?c = "cfg_of ''10.0.0.1'' 30 ''scapy''"
  let ?e = "env_of ''linux'' (Inl FileNotFoundError) (Inr [''eth0'']) (answer_at 3 ''10.0.0.1'')"
  let ?hs = "[\<lparr>hop = 1, ip = ''*'', latency = - 1\<rparr>, \<lparr>hop = 2, ip = ''*'', latency = - 1\<rparr>,
           \<lparr>hop = 3, ip = ''10.0.0.1'', latency = 10\<rparr>]"
  let ?w = "\<lparr>conf_iface = ''eth0'', calls = [Get_if_list, Srp ''eth0'' ''10.0.0.1'' 1 2,
          Srp ''eth0'' ''10.0.0.1'' 2 2, Srp ''eth0'' ''10.0.0.1'' 3 2]\<rparr>"
  let ?l = "''  7     5 ms     4 ms     6 ms  10.0.0.7''"
  let ?h = "\<lparr>hop = 7, ip = ''10.0.0.7'', latency = 5\<rparr>"
  let ?out = "[?l, ''  8     5 ms     4 ms     6 ms  10.0.0.8'']"
  have a: "scapy_trace ?c ?e w0 = (Inr ?hs, ?w)" by code_simp
  have b: "tracert_line ?l = Inr (Some ?h)" by code_simp
  have c: "tracert_loop ''10.0.0.7'' ?out [] = Inr [?h]" by code_simp
  from hop_index_of_strategies [of ?c ?e w0 ?hs ?w ?l ?h "''10.0.0.7''" ?out "[?h]"] a b c
  show ?thesis by blast
qed

text \<open>
  Claim C3 as stated fails: \<open>trace\<close> on \<^verbatim>\<open>win32\<close>, with a tool that prints hop 7 and then
  hop 3, returns records numbered 7 and 3.
\<close>

theorem hop_index_of_strategies_counterexample:
  "fst (trace (cfg_of ''10.0.0.1'' 30 ''tracert'')
      (env_of ''win32''
         (tool_output 0 (''  7     5 ms     4 ms     6 ms  10.0.0.7'' @ newline @
                         ''  3     5 ms     4 ms     6 ms  10.0.0.3'' @ newline))
         (Inr []) no_answer) w0) =
     Inr [\<lparr>hop = 7, ip = ''10.0.0.7'', latency = 5\<rparr>, \<lparr>hop = 3, ip = ''10.0.0.3'', latency = 5\<rparr>] \<and>
   \<not> increasing_from_one
     (map hop [\<lparr>hop = 7, ip = ''10.0.0.7'', latency = 5\<rparr>, \<lparr>hop = 3, ip = ''10.0.0.3'', latency = 5\<rparr>])"
  by code_simp

subsection \<open>C4: the sentinel pairing\<close>

text \<open>
  Claim C4, as amended. On the raw-probe path a record with the address \<^verbatim>\<open>"*"\<close> has the
  latency \<open>-1\<close>, given that no received frame carries \<^verbatim>\<open>"*"\<close> as its source address. On
  the external-tool path the two fields are parsed independently of each other: the
  address is \<^verbatim>\<open>"*"\<close> exactly when the line holds no instance of the address pattern, and
  the latency is \<open>-1\<close> exactly when the line holds no latency sample. So both mixed
  records occur there: a concrete address with latency \<open>-1\<close>, and the address \<^verbatim>\<open>"*"\<close>
  with a measured latency.
\<close>

theorem sentinel_pairing:
  "((\<forall>iface ttl r rs. srp env iface (target_host cfg) ttl 2 = Inr (r # rs) \<longrightarrow> reply_addr r \<noteq> ''*'') \<and>
    scapy_trace cfg env w = (Inr hops, w') \<longrightarrow>
      (\<forall>h\<in>set hops. ip h = ''*'' \<longrightarrow> latency h = - 1)) \<and>
   (tracert_line raw = Inr (Some h) \<longrightarrow>
      ((ip h = ''*'') = (\<not> has_instance ip_re (strip raw))) \<and>
      ((latency h = - 1) = (\<not> has_instance rtt_re (strip raw))))"
proof (intro conjI impI)
  assume a: "(\<forall>iface ttl r rs. srp env iface (target_host cfg) ttl 2 = Inr (r # rs) \<longrightarrow> reply_addr r \<noteq> ''*'') \<and>
    scapy_trace cfg env w = (Inr hops, w')"
  then have st: "scapy_trace cfg env w = (Inr hops, w')" by simp
  from st obtain w2 where run: "scapy_loop cfg env [1..max_hops cfg] [] w2 = (Inr hops, w')"
    by (cases "get_if_list env") (simp_all add: scapy_trace_def Let_def)
  from a have "\<forall>ttl r rs. srp env (conf_iface w2) (target_host cfg) ttl 2 = Inr (r # rs) \<longrightarrow> reply_addr r \<noteq> ''*''"
    by blast
  from scapy_loop_sentinel [OF this run] show "\<forall>h\<in>set hops. ip h = ''*'' \<longrightarrow> latency h = - 1" by simp
next
  assume l: "tracert_line raw = Inr (Some h)"
  from tracert_line_Some(4) [OF l] show "(ip h = ''*'') = (\<not> has_instance ip_re (strip raw))"
    by (simp add: ip_of_line_star)
  from tracert_line_Some(5) [OF l]
  have "(latency h = - 1) = (rtt_findall (strip raw) = [])" by (simp add: mean_latency_sentinel)
  also have "\<dots> = (re_search rtt_re (strip raw) = None)" by (simp add: rtt_findall_def re_findall_Nil)
  also have "\<dots> = (\<not> has_instance rtt_re (strip raw))" by (rule re_search_None)
  finally show "(latency h = - 1) = (\<not> has_instance rtt_re (strip raw))" .
qed

text \<open>
  The theorem at work: a probe that times out, and a line of the tool for an IPv6 hop,
  which has three samples and no dotted quad.
\<close>

theorem sentinel_pairing_witness:
  "scapy_trace (cfg_of ''10.0.0.1'' 30 ''scapy'')
      (env_of ''linux'' (Inl FileNotFoundError) (Inr [''eth0'']) (answer_at 2 ''10.0.0.1'')) w0 =
     (Inr [\<lparr>hop = 1, ip = ''*'', latency = - 1\<rparr>, \<lparr>hop = 2, ip = ''10.0.0.1'', latency = 10\<rparr>],
      \<lparr>conf_iface = ''eth0'', calls = [Get_if_list, Srp ''eth0'' ''10.0.0.1'' 1 2,
          Srp ''eth0'' ''10.0.0.1'' 2 2]\<rparr>) \<and>
   tracert_line ''  1    <1 ms    <1 ms    <1 ms  2001:db8::1'' =
     Inr (Some \<lparr>hop = 1, ip = ''*'', latency = 1\<rparr>) \<and>
   \<not> has_instance ip_re (strip ''  1    <1 ms    <1 ms    <1 ms  2001:db8::1'') \<and>
   has_instance rtt_re (strip ''  1    <1 ms    <1 ms    <1 ms  2001:db8::1'')"
proof -
  let ?c = "cfg_of ''10.0.0.1'' 30 ''scapy''"
  let ?e = "env_of ''linux'' (Inl FileNotFoundError) (Inr [''eth0'']) (answer_at 2 ''10.0.0.1'')"
  let ?hs = "[\<lparr>hop = 1, ip = ''*'', latency = - 1\<rparr>, \<lparr>hop = 2, ip = ''10.0.0.1'', latency = 10\<rparr>]"
  let ?w = "\<lparr>conf_iface = ''eth0'', calls = [Get_if_list, Srp ''eth0'' ''10.0.0.1'' 1 2,
          Srp ''eth0'' ''10.0.0.1'' 2 2]\<rparr>"
  let ?l = "''  1    <1 ms    <1 ms    <1 ms  2001:db8::1''"
  let ?h = "\<lparr>hop = 1, ip = ''*'', latency = 1\<rparr>"
  have a: "scapy_trace ?c ?e w0 = (Inr ?hs, ?w)" by code_simp
  have b: "\<forall>iface ttl r rs. srp ?e iface (target_host ?c) ttl 2 = Inr (r # rs) \<longrightarrow> reply_addr r \<noteq> ''*''"
    by (auto simp: env_of_def answer_at_def reply_addr_def split: if_splits)
  have c: "tracert_line ?l = Inr (Some ?h)" by code_simp
  from sentinel_pairing [of ?e ?c w0 ?hs ?w ?l ?h] a b c
  show ?thesis by simp
qed

text \<open>
  Claim C4 as stated fails on the external-tool path: the line of an IPv6 hop gives a
  record with the address \<^verbatim>\<open>"*"\<close> and the latency 1.
\<close>

theorem sentinel_pairing_counterexample:
  "fst (tracert_trace (cfg_of ''example.com'' 30 ''tracert'')
      (env_of ''win32'' (tool_output 0 (''  1    <1 ms    <1 ms    <1 ms  2001:db8::1'' @ newline))
         (Inr []) no_answer) w0) =
     Inr [\<lparr>hop = 1, ip = ''*'', latency = 1\<rparr>]"
  by code_simp

subsection \<open>C5: the latency of a line\<close>



subsection \<open>C6: the stop at the target\<close>

text \<open>
  Claim C6. Let \<open>raw\<close> be the first line of the output whose parsed address equals the
  target: no line before it has a record with that address, and the lines before it
  give the records \<open>hs\<close> without raising. Then the parser returns \<open>hs\<close> followed by the record of
  \<open>raw\<close>, whatever lines \<open>post\<close> follow it.
\<close>

theorem tracert_loop_stops_at_target:
  assumes "\<forall>l\<in>set pre. \<forall>h'. tracert_line l = Inr (Some h') \<longrightarrow> ip h' \<noteq> target"
    and "records_of pre = Inr hs"
    and "tracert_line raw = Inr (Some h)"
    and "ip h = target"
  shows "tracert_loop target (pre @ raw # post) [] = Inr (hs @ [h])"
  using tracert_loop_no_stop [OF assms(1), of "raw # post" "[]"] assms(2,3,4) by simp

text \<open>
  The theorem at work, on the lines of an output text in which a hop follows the
  target's line; the header names the target too and is skipped.
\<close>

theorem tracert_loop_stops_at_target_witness:
  "splitlines (''Tracing route to 10.0.0.1 over a maximum of 30 hops'' @ newline @ newline @
               ''  1     5 ms     4 ms     6 ms  10.0.0.7'' @ newline @
               ''  2     8 ms     7 ms     9 ms  10.0.0.1'' @ newline @
               ''  3     8 ms     7 ms     9 ms  10.0.0.9'' @ newline @
               ''Trace complete.'' @ newline) =
     [''Tracing route to 10.0.0.1 over a maximum of 30 hops'', [],
      ''  1     5 ms     4 ms     6 ms  10.0.0.7''] @
     ''  2     8 ms     7 ms     9 ms  10.0.0.1'' #
     [''  3     8 ms     7 ms     9 ms  10.0.0.9'', ''Trace complete.''] \<and>
   records_of [''Tracing route to 10.0.0.1 over a maximum of 30 hops'', [],
               ''  1     5 ms     4 ms     6 ms  10.0.0.7''] =
     Inr [\<lparr>hop = 1, ip = ''10.0.0.7'', latency = 5\<rparr>] \<and>
   tracert_line ''  2     8 ms     7 ms     9 ms  10.0.0.1'' =
     Inr (Some \<lparr>hop = 2, ip = ''10.0.0.1'', latency = 8\<rparr>) \<and>
   tracert_loop ''10.0.0.1''
     ([''Tracing route to 10.0.0.1 over a maximum of 30 hops'', [],
       ''  1     5 ms     4 ms     6 ms  10.0.0.7''] @
      ''  2     8 ms     7 ms     9 ms  10.0.0.1'' #
      [''  3     8 ms     7 ms     9 ms  10.0.0.9'', ''Trace complete.'']) [] =
     Inr ([\<lparr>hop = 1, ip = ''10.0.0.7'', latency = 5\<rparr>] @ [\<lparr>hop = 2, ip = ''10.0.0.1'', latency = 8\<rparr>])"
proof -
  let ?pre = "[''Tracing route to 10.0.0.1 over a maximum of 30 hops'', [],
               ''  1     5 ms     4 ms     6 ms  10.0.0.7'']"
  let ?raw = "''  2     8 ms     7 ms     9 ms  10.0.0.1''"
  let ?post = "[''  3     8 ms     7 ms     9 ms  10.0.0.9'', ''Trace complete.'']"
  let ?h1 = "\<lparr>hop = 1, ip = ''10.0.0.7'', latency = 5\<rparr>"
  let ?h2 = "\<lparr>hop = 2, ip = ''10.0.0.1'', latency = 8\<rparr>"
  have l1: "tracert_line ''Tracing route to 10.0.0.1 over a maximum of 30 hops'' = Inr None" by code_simp
  have l2: "tracert_line [] = Inr None" by code_simp
  have l3: "tracert_line ''  1     5 ms     4 ms     6 ms  10.0.0.7'' = Inr (Some ?h1)" by code_simp
  have a: "\<forall>l\<in>set ?pre. \<forall>h'. tracert_line l = Inr (Some h') \<longrightarrow> ip h' \<noteq> ''10.0.0.1''"
    using l1 l2 l3 by auto
  have b: "records_of ?pre = Inr [?h1]" using l1 l2 l3 by simp
  have c: "tracert_line ?raw = Inr (Some ?h2)" by code_simp
  have d: "ip ?h2 = ''10.0.0.1''" by simp
  have e: "splitlines (''Tracing route to 10.0.0.1 over a maximum of 30 hops'' @ newline @ newline @
               ''  1     5 ms     4 ms     6 ms  10.0.0.7'' @ newline @
               ''  2     8 ms     7 ms     9 ms  10.0.0.1'' @ newline @
               ''  3     8 ms     7 ms     9 ms  10.0.0.9'' @ newline @
               ''Trace complete.'' @ newline) = ?pre @ ?raw # ?post" by code_simp
  from tracert_loop_stops_at_target [OF a b c d, of ?post] b c e show ?thesis by blast
qed

subsection \<open>C7: the subprocess\<close>

text \<open>
  Claim C7, as amended. The external-tool strategy makes one subprocess call, with the
  timeout 60. When that call raises (a timeout is one such exception) the strategy
  prints a message and returns no hop. When the call returns, the strategy parses the
  captured output and nothing else: the exit status is not read, so a non-zero status
  neither raises nor empties the result.
\<close>

theorem tracert_trace_subprocess:
  "calls (snd (tracert_trace cfg env w)) =
     calls w @ Subprocess_run (tracert_argv cfg) 60 #
       (case subprocess_run env (tracert_argv cfg) 60 of
          Inl e \<Rightarrow> [Print_tracert_failed e] | Inr proc \<Rightarrow> []) \<and>
   (subprocess_run env (tracert_argv cfg) 60 = Inl e \<longrightarrow> fst (tracert_trace cfg env w) = Inr []) \<and>
   (subprocess_run env (tracert_argv cfg) 60 = Inr proc \<longrightarrow>
      fst (tracert_trace cfg env w) = tracert_loop (target_host cfg) (splitlines (stdout proc)) [])"
  by (cases "subprocess_run env (tracert_argv cfg) 60")
     (simp_all add: tracert_trace_def Let_def calls_log_call)

text \<open>
  The theorem at work: a tool that times out, and one that prints a hop.
\<close>

theorem tracert_trace_subprocess_witness:
  "subprocess_run (env_of ''win32'' (Inl TimeoutExpired) (Inr []) no_answer)
      (tracert_argv (cfg_of ''10.0.0.1'' 30 ''tracert'')) 60 = Inl TimeoutExpired \<and>
   tracert_trace (cfg_of ''10.0.0.1'' 30 ''tracert'')
      (env_of ''win32'' (Inl TimeoutExpired) (Inr []) no_answer) w0 =
     (Inr [], \<lparr>conf_iface = ''lo'', calls =
        [Subprocess_run [''tracert'', ''-d'', ''-w'', ''200'', ''10.0.0.1''] 60,
         Print_tracert_failed TimeoutExpired]\<rparr>) \<and>
   fst (tracert_trace (cfg_of ''10.0.0.1'' 30 ''tracert'')
      (env_of ''win32'' (tool_output 0 ''  1     5 ms     4 ms     6 ms  10.0.0.1'') (Inr []) no_answer) w0) =
     tracert_loop ''10.0.0.1'' [''  1     5 ms     4 ms     6 ms  10.0.0.1''] []"
proof -
  let ?c = "cfg_of ''10.0.0.1'' 30 ''tracert''"
  let ?e = "env_of ''win32'' (Inl TimeoutExpired) (Inr []) no_answer"
  let ?f = "env_of ''win32'' (tool_output 0 ''  1     5 ms     4 ms     6 ms  10.0.0.1'') (Inr []) no_answer"
  have a: "subprocess_run ?e (tracert_argv ?c) 60 = Inl TimeoutExpired" by (simp add: env_of_def)
  have b: "subprocess_run ?f (tracert_argv ?c) 60 =
      Inr \<lparr>returncode = 0, stdout = ''  1     5 ms     4 ms     6 ms  10.0.0.1''\<rparr>"
    by (simp add: env_of_def tool_output_def)
  have c: "snd (tracert_trace ?c ?e w0) = \<lparr>conf_iface = ''lo'', calls =
        [Subprocess_run [''tracert'', ''-d'', ''-w'', ''200'', ''10.0.0.1''] 60,
         Print_tracert_failed TimeoutExpired]\<rparr>" by code_simp
  have d: "splitlines ''  1     5 ms     4 ms     6 ms  10.0.0.1'' = [''  1     5 ms     4 ms     6 ms  10.0.0.1'']"
    by code_simp
  have t: "target_host ?c = ''10.0.0.1''" by (simp add: cfg_of_def)
  from tracert_trace_subprocess [of ?c ?e w0 TimeoutExpired] a
  have "fst (tracert_trace ?c ?e w0) = Inr []" by blast
  with c have 1: "tracert_trace ?c ?e w0 = (Inr [], \<lparr>conf_iface = ''lo'', calls =
        [Subprocess_run [''tracert'', ''-d'', ''-w'', ''200'', ''10.0.0.1''] 60,
         Print_tracert_failed TimeoutExpired]\<rparr>)"
    by (cases "tracert_trace ?c ?e w0") simp
  from tracert_trace_subprocess [of ?c ?f w0 _ "\<lparr>returncode = 0, stdout = ''  1     5 ms     4 ms     6 ms  10.0.0.1''\<rparr>"] b
  have 2: "fst (tracert_trace ?c ?f w0) = tracert_loop ''10.0.0.1'' [''  1     5 ms     4 ms     6 ms  10.0.0.1''] []"
    by (simp add: d t)
  from a 1 2 show ?thesis by blast
qed

text \<open>
  Claim C7 as stated fails: a tool that exits with status 1 after printing one hop
  gives a result of one record.
\<close>

theorem tracert_trace_subprocess_counterexample:
  "subprocess_run (env_of ''win32'' (tool_output 1 ''  1     5 ms     4 ms     6 ms  10.0.0.1'') (Inr []) no_answer)
      (tracert_argv (cfg_of ''10.0.0.1'' 30 ''tracert'')) 60 =
     Inr \<lparr>returncode = 1, stdout = ''  1     5 ms     4 ms     6 ms  10.0.0.1''\<rparr> \<and>
   fst (tracert_trace (cfg_of ''10.0.0.1'' 30 ''tracert'')
      (env_of ''win32'' (tool_output 1 ''  1     5 ms     4 ms     6 ms  10.0.0.1'') (Inr []) no_answer) w0) =
     Inr [\<lparr>hop = 1, ip = ''10.0.0.1'', latency = 5\<rparr>]"
  by code_simp

subsection \<open>C8: no network interface\<close>

lemma scapy_trace_empty_if_list:
  assumes "get_if_list env = Inr []"
  shows "scapy_trace cfg env w = scapy_loop cfg env [1..max_hops cfg] [] (log_call Get_if_list w)"
    and "conf_iface (snd (scapy_trace cfg env w)) = conf_iface w"
    and "1 \<le> max_hops cfg \<Longrightarrow>
           Srp (conf_iface w) (target_host cfg) 1 2 \<in> set (calls (snd (scapy_trace cfg env w))) \<and>
           fst (scapy_trace cfg env w) \<noteq> Inr []"
proof -
  show run: "scapy_trace cfg env w = scapy_loop cfg env [1..max_hops cfg] [] (log_call Get_if_list w)"
    using assms by (simp add: scapy_trace_def Let_def)
  show "conf_iface (snd (scapy_trace cfg env w)) = conf_iface w"
    by (simp add: run scapy_loop_conf_iface conf_iface_log_call)
  show "Srp (conf_iface w) (target_host cfg) 1 2 \<in> set (calls (snd (scapy_trace cfg env w))) \<and>
           fst (scapy_trace cfg env w) \<noteq> Inr []" if m: "1 \<le> max_hops cfg"
  proof
    from m have ttls: "[1..max_hops cfg] = 1 # [2..max_hops cfg]" by (simp add: upto.simps)
    from scapy_loop_calls [of "[1..max_hops cfg]" cfg env "[]" "log_call Get_if_list w"]
    obtain n where "0 < n" and "calls (snd (scapy_trace cfg env w)) =
        calls (log_call Get_if_list w) @
          map (\<lambda>ttl. Srp (conf_iface w) (target_host cfg) ttl 2) (take n [1..max_hops cfg])"
      by (auto simp: run ttls conf_iface_log_call)
    then show "Srp (conf_iface w) (target_host cfg) 1 2 \<in> set (calls (snd (scapy_trace cfg env w)))"
      by (cases n) (simp_all add: ttls)
    show "fst (scapy_trace cfg env w) \<noteq> Inr []"
    proof
      assume "fst (scapy_trace cfg env w) = Inr []"
      then have "scapy_trace cfg env w = (Inr [], snd (scapy_trace cfg env w))"
        by (cases "scapy_trace cfg env w") simp
      from scapy_trace_hops(3) [OF this m] show False by simp
    qed
  qed
qed

text \<open>
  Claim C8, as amended. With an empty interface list the raw-probe strategy leaves
  \<^verbatim>\<open>conf.iface\<close> as it was and runs the probing loop all the same: if \<^verbatim>\<open>max_hops\<close> is at
  least 1 the probe with TTL 1 is sent on the interface set before, and a run that does
  not raise returns at least one record.
\<close>

theorem scapy_trace_no_interface:
  "get_if_list env = Inr [] \<Longrightarrow>
     scapy_trace cfg env w = scapy_loop cfg env [1..max_hops cfg] [] (log_call Get_if_list w) \<and>
     conf_iface (snd (scapy_trace cfg env w)) = conf_iface w \<and>
     (1 \<le> max_hops cfg \<longrightarrow>
        Srp (conf_iface w) (target_host cfg) 1 2 \<in> set (calls (snd (scapy_trace cfg env w))) \<and>
        fst (scapy_trace cfg env w) \<noteq> Inr [])"
  using scapy_trace_empty_if_list [of env cfg w] by blast

text \<open>
  The theorem at work, with the default 30 hops.
\<close>

theorem scapy_trace_no_interface_witness:
  "get_if_list (env_of ''linux'' (Inl FileNotFoundError) (Inr []) (answer_at 2 ''10.0.0.1'')) = Inr [] \<and>
   1 \<le> max_hops (cfg_of ''10.0.0.1'' 30 ''scapy'') \<and>
   conf_iface (snd (scapy_trace (cfg_of ''10.0.0.1'' 30 ''scapy'')
      (env_of ''linux'' (Inl FileNotFoundError) (Inr []) (answer_at 2 ''10.0.0.1'')) w0)) = conf_iface w0 \<and>
   Srp (conf_iface w0) (target_host (cfg_of ''10.0.0.1'' 30 ''scapy'')) 1 2
     \<in> set (calls (snd (scapy_trace (cfg_of ''10.0.0.1'' 30 ''scapy'')
      (env_of ''linux'' (Inl FileNotFoundError) (Inr []) (answer_at 2 ''10.0.0.1'')) w0))) \<and>
   fst (scapy_trace (cfg_of ''10.0.0.1'' 30 ''scapy'')
      (env_of ''linux'' (Inl FileNotFoundError) (Inr []) (answer_at 2 ''10.0.0.1'')) w0) \<noteq> Inr []"
proof -
  let ?c = "cfg_of ''10.0.0.1'' 30 ''scapy''"
  let ?e = "env_of ''linux'' (Inl FileNotFoundError) (Inr []) (answer_at 2 ''10.0.0.1'')"
  have a: "get_if_list ?e = Inr []" by (simp add: env_of_def)
  have b: "1 \<le> max_hops ?c" by (simp add: cfg_of_def)
  from scapy_trace_no_interface [OF a, of ?c w0] a b
  show ?thesis by blast
qed

text \<open>
  Claim C8 as stated fails: with no interface listed, two probes are sent and two records
  returned.
\<close>

theorem scapy_trace_no_interface_counterexample:
  "get_if_list (env_of ''linux'' (Inl FileNotFoundError) (Inr []) (answer_at 2 ''10.0.0.1'')) = Inr [] \<and>
   scapy_trace (cfg_of ''10.0.0.1'' 30 ''scapy'')
      (env_of ''linux'' (Inl FileNotFoundError) (Inr []) (answer_at 2 ''10.0.0.1'')) w0 =
     (Inr [\<lparr>hop = 1, ip = ''*'', latency = - 1\<rparr>, \<lparr>hop = 2, ip = ''10.0.0.1'', latency = 10\<rparr>],
      \<lparr>conf_iface = ''lo'', calls =
         [Get_if_list, Srp ''lo'' ''10.0.0.1'' 1 2, Srp ''lo'' ''10.0.0.1'' 2 2]\<rparr>)"
  by code_simp

subsection \<open>C9: shared state\<close>

text \<open>
  Claim C9, as amended. The external-tool strategy leaves the process-wide setting
  \<^verbatim>\<open>conf.iface\<close> as it is. The raw-probe strategy writes it: after the run it is the first
  listed interface whenever the list is not empty. Every probe of the run is sent on the
  interface the setting names. (The tracer's own fields are only read: the model passes
  \<open>cfg\<close> by value and no operation returns a changed one.)
\<close>

theorem trace_conf_iface:
  "conf_iface (snd (tracert_trace cfg env w)) = conf_iface w \<and>
   conf_iface (snd (scapy_trace cfg env w)) =
     (case get_if_list env of Inr (i # _) \<Rightarrow> i | _ \<Rightarrow> conf_iface w) \<and>
   (\<forall>iface dst ttl t. Srp iface dst ttl t \<in> set (calls (snd (scapy_trace cfg env w))) - set (calls w) \<longrightarrow>
      iface = conf_iface (snd (scapy_trace cfg env w)))"
proof (intro conjI)
  show "conf_iface (snd (tracert_trace cfg env w)) = conf_iface w"
    by (cases "subprocess_run env (tracert_argv cfg) 60")
       (simp_all add: tracert_trace_def Let_def conf_iface_log_call)
  show ci: "conf_iface (snd (scapy_trace cfg env w)) =
     (case get_if_list env of Inr (i # _) \<Rightarrow> i | _ \<Rightarrow> conf_iface w)"
    by (auto simp: scapy_trace_def Let_def conf_iface_log_call scapy_loop_conf_iface
        split: sum.splits list.splits)
  show "\<forall>iface dst ttl t. Srp iface dst ttl t \<in> set (calls (snd (scapy_trace cfg env w))) - set (calls w) \<longrightarrow>
      iface = conf_iface (snd (scapy_trace cfg env w))"
  proof (cases "get_if_list env")
    case (Inl e)
    then show ?thesis by (auto simp: scapy_trace_def Let_def calls_log_call)
  next
    case (Inr ifs)
    define w2 where "w2 = (if ifs \<noteq> [] then (log_call Get_if_list w)\<lparr>conf_iface := hd ifs\<rparr>
       else log_call Get_if_list w)"
    have run: "scapy_trace cfg env w = scapy_loop cfg env [1..max_hops cfg] [] w2"
      using Inr by (simp add: scapy_trace_def Let_def w2_def)
    have c2: "calls w2 = calls w @ [Get_if_list]" by (simp add: w2_def calls_log_call)
    from scapy_loop_calls [of "[1..max_hops cfg]" cfg env "[]" w2]
    obtain n where "calls (snd (scapy_trace cfg env w)) =
        calls w2 @ map (\<lambda>ttl. Srp (conf_iface w2) (target_host cfg) ttl 2) (take n [1..max_hops cfg])"
      by (auto simp: run)
    moreover have "conf_iface (snd (scapy_trace cfg env w)) = conf_iface w2"
      by (simp add: run scapy_loop_conf_iface)
    ultimately show ?thesis by (auto simp: c2)
  qed
qed

text \<open>
  The theorem at work: the probe of a run goes out on the interface the run has set.
\<close>

theorem trace_conf_iface_witness:
  "Srp ''eth0'' ''10.0.0.1'' 1 2
      \<in> set (calls (snd (scapy_trace (cfg_of ''10.0.0.1'' 30 ''scapy'')
          (env_of ''linux'' (Inl FileNotFoundError) (Inr [''eth0'', ''lo'']) (answer_at 1 ''10.0.0.1'')) w0))) - set (calls w0) \<and>
   ''eth0'' = conf_iface (snd (scapy_trace (cfg_of ''10.0.0.1'' 30 ''scapy'')
          (env_of ''linux'' (Inl FileNotFoundError) (Inr [''eth0'', ''lo'']) (answer_at 1 ''10.0.0.1'')) w0))"
proof -
  let ?c = "cfg_of ''10.0.0.1'' 30 ''scapy''"
  let ?e = "env_of ''linux'' (Inl FileNotFoundError) (Inr [''eth0'', ''lo'']) (answer_at 1 ''10.0.0.1'')"
  have a: "Srp ''eth0'' ''10.0.0.1'' 1 2 \<in> set (calls (snd (scapy_trace ?c ?e w0))) - set (calls w0)"
    by code_simp
  from trace_conf_iface [of ?c ?e w0] a show ?thesis by blast
qed

text \<open>
  Claim C9 as stated fails: a raw-probe trace started with \<^verbatim>\<open>conf.iface\<close> naming \<^verbatim>\<open>lo\<close> ends
  with it naming \<^verbatim>\<open>eth0\<close>.
\<close>

theorem trace_conf_iface_counterexample:
  "conf_iface w0 = ''lo'' \<and>
   conf_iface (snd (trace (cfg_of ''10.0.0.1'' 30 ''scapy'')
      (env_of ''linux'' (Inl FileNotFoundError) (Inr [''eth0'', ''lo'']) (answer_at 1 ''10.0.0.1'')) w0)) = ''eth0''"
  by code_simp

subsection \<open>C10: a target that no parsed address equals\<close>

text \<open>
  Claim C10, as amended. If the target is neither a dotted quad (four runs of decimal
  digits with dots between them, which is all the address pattern asks for) nor the
  text \<^verbatim>\<open>"*"\<close>, then no parsed address equals it: the parser goes through the whole output
  and its result is that of parsing every line with no early stop (the same exception
  where that raises), one record for each data line.
\<close>

theorem tracert_loop_never_stops:
  assumes "\<not> is_dotted_quad target" and "target \<noteq> ''*''"
  shows "tracert_loop target out [] = records_of out \<and>
         (\<forall>hs. tracert_loop target out [] = Inr hs \<longrightarrow> length hs = length (filter is_data_line out))"
proof -
  have no: "\<forall>raw\<in>set out. \<forall>h. tracert_line raw = Inr (Some h) \<longrightarrow> ip h \<noteq> target"
  proof (intro ballI allI impI)
    fix raw h assume "tracert_line raw = Inr (Some h)"
    then have "ip h = ip_of_line (strip raw)" by (rule tracert_line_Some(4))
    with ip_of_line_shape [of "strip raw"] assms show "ip h \<noteq> target" by auto
  qed
  from tracert_loop_no_stop [OF no, of "[]" "[]"]
  have eq: "tracert_loop target out [] = records_of out"
    by (cases "records_of out") simp_all
  then show ?thesis using length_records_of by auto
qed

text \<open>
  The theorem at work: with a host name for target, the line of the host's own address
  does not stop the scan.
\<close>

theorem tracert_loop_never_stops_witness:
  "\<not> is_dotted_quad ''example.com'' \<and>
   tracert_loop ''example.com''
     [''  1     5 ms     4 ms     6 ms  10.0.0.7'', ''  2     8 ms     7 ms     9 ms  93.184.216.34'',
      ''  3     8 ms     7 ms     9 ms  10.0.0.9''] [] =
   records_of
     [''  1     5 ms     4 ms     6 ms  10.0.0.7'', ''  2     8 ms     7 ms     9 ms  93.184.216.34'',
      ''  3     8 ms     7 ms     9 ms  10.0.0.9''] \<and>
   tracert_loop ''example.com''
     [''  1     5 ms     4 ms     6 ms  10.0.0.7'', ''  2     8 ms     7 ms     9 ms  93.184.216.34'',
      ''  3     8 ms     7 ms     9 ms  10.0.0.9''] [] =
   Inr [\<lparr>hop = 1, ip = ''10.0.0.7'', latency = 5\<rparr>, \<lparr>hop = 2, ip = ''93.184.216.34'', latency = 8\<rparr>,
        \<lparr>hop = 3, ip = ''10.0.0.9'', latency = 8\<rparr>] \<and>
   length (filter is_data_line
     [''  1     5 ms     4 ms     6 ms  10.0.0.7'', ''  2     8 ms     7 ms     9 ms  93.184.216.34'',
      ''  3     8 ms     7 ms     9 ms  10.0.0.9'']) = 3"
proof -
  let ?out = "[''  1     5 ms     4 ms     6 ms  10.0.0.7'', ''  2     8 ms     7 ms     9 ms  93.184.216.34'',
      ''  3     8 ms     7 ms     9 ms  10.0.0.9'']"
  let ?hs = "[\<lparr>hop = 1, ip = ''10.0.0.7'', latency = 5\<rparr>, \<lparr>hop = 2, ip = ''93.184.216.34'', latency = 8\<rparr>,
        \<lparr>hop = 3, ip = ''10.0.0.9'', latency = 8\<rparr>]"
  have a: "\<not> is_dotted_quad ''example.com''" by code_simp
  have b: "''example.com'' \<noteq> ''*''" by simp
  have c: "tracert_loop ''example.com'' ?out [] = Inr ?hs" by code_simp
  from tracert_loop_never_stops [OF a b, of ?out]
  have e1: "tracert_loop ''example.com'' ?out [] = records_of ?out"
    and e2: "\<forall>hs. tracert_loop ''example.com'' ?out [] = Inr hs \<longrightarrow>
               length hs = length (filter is_data_line ?out)" by blast+
  from e2 c have "length ?hs = length (filter is_data_line ?out)" by blast
  moreover have "length ?hs = 3" by simp
  ultimately have e3: "length (filter is_data_line ?out) = 3" by (simp only:)
  show ?thesis by (intro conjI a e1 c e3)
qed

text \<open>
  Claim C10 as stated fails for the target \<^verbatim>\<open>"*"\<close>, which is not a dotted quad: the record
  of a hop that timed out has that address and ends the scan, and the data line after
  it gets no record.
\<close>

theorem tracert_loop_never_stops_counterexample:
  "\<not> is_dotted_quad ''*'' \<and>
   tracert_loop ''*''
     [''  1     *        *        *     Request timed out.'',
      ''  2     8 ms     7 ms     9 ms  10.0.0.1''] [] =
     Inr [\<lparr>hop = 1, ip = ''*'', latency = - 1\<rparr>] \<and>
   records_of
     [''  1     *        *        *     Request timed out.'',
      ''  2     8 ms     7 ms     9 ms  10.0.0.1''] =
     Inr [\<lparr>hop = 1, ip = ''*'', latency = - 1\<rparr>, \<lparr>hop = 2, ip = ''10.0.0.1'', latency = 8\<rparr>]"
  by code_simp

end
